theory Spec2Isabelle
  imports Main
begin

section \<open>Users and the access control guard (middleware/auth.js)\<close>

text \<open>
  The user document as the middleware and the controllers read it: \<open>_id\<close>, \<open>role\<close>
  (a string compared with \<open>'admin'\<close>) and \<open>isActive\<close>. The password is never loaded
  (\<open>select('-password')\<close>).
\<close>

record user =
  user_id :: string
  username :: string
  email :: string
  role :: string
  isActive :: bool

text \<open>The decoded payload of a token; the middleware reads only \<open>decoded.id\<close>.\<close>

record claims =
  claim_id :: string
  claim_role :: string

text \<open>
  What \<open>verifyToken\<close> and \<open>User.findById\<close> can throw, as the catch block of
  \<open>authenticate\<close> tells them apart: an invalid token (message \<open>'Invalid token'\<close> or
  name \<open>JsonWebTokenError\<close>), an expired one (\<open>TokenExpiredError\<close>), anything else
  (for instance a data store failure).
\<close>

datatype exn = JsonWebTokenError | TokenExpiredError | OtherError

text \<open>
  A middleware either answers the request itself (\<open>res.status(c).json({message})\<close>) or
  calls \<open>next()\<close>; \<open>Next u\<close> carries \<open>req.user\<close> as it is when \<open>next\<close> is called
  (\<open>None\<close> when no identity was attached).
\<close>

datatype mw_result = Responded nat string | Next "user option"

text \<open>
  Modelled from the spec: \<open>extractTokenFromHeader\<close> of utils/auth.js, which is not among
  the sources. The spec: it parses a \<open>"Bearer <token>"\<close> value and returns null, not an
  error, for a missing or malformed header. The header is \<open>None\<close> when the request has no
  Authorization header.
\<close>

definition extractTokenFromHeader :: "string option \<Rightarrow> string option" where
  "extractTokenFromHeader authHeader =
     (case authHeader of
        None \<Rightarrow> None
      | Some h \<Rightarrow> if take 7 h = ''Bearer '' then Some (drop 7 h) else None)"

text \<open>The catch block of \<open>authenticate\<close>.\<close>

definition authenticate_catch :: "exn \<Rightarrow> mw_result" where
  "authenticate_catch e =
     (if e = JsonWebTokenError then Responded 401 ''Invalid access token''
      else if e = TokenExpiredError then Responded 401 ''Access token has expired''
      else Responded 500 ''Internal server error during authentication'')"

text \<open>
  \<open>authenticate\<close>. The token verifier (signature and expiry check of the JWT library) and
  the user lookup \<open>User.findById\<close> are parameters; each either throws or returns. \<open>!token\<close> holds for
  null and for the empty string.
\<close>

definition authenticate ::
  "(string \<Rightarrow> exn + claims) \<Rightarrow> (string \<Rightarrow> exn + user option) \<Rightarrow> string option \<Rightarrow> mw_result" where
  "authenticate verifyToken findUser authHeader =
     (case extractTokenFromHeader authHeader of
        None \<Rightarrow> Responded 401 ''Access token is required''
      | Some token \<Rightarrow>
          if token = [] then Responded 401 ''Access token is required''
          else (case verifyToken token of
                  Inl e \<Rightarrow> authenticate_catch e
                | Inr decoded \<Rightarrow>
                    (case findUser (claim_id decoded) of
                       Inl e \<Rightarrow> authenticate_catch e
                     | Inr None \<Rightarrow> Responded 401 ''User not found''
                     | Inr (Some u) \<Rightarrow>
                         if \<not> isActive u then Responded 401 ''User account is deactivated''
                         else Next (Some u))))"

text \<open>
  \<open>optionalAuth\<close>: the same resolution inside a try block whose catch calls \<open>next()\<close>;
  \<open>req.user\<close> is assigned only for a user that was found and is active.
\<close>

definition optionalAuth ::
  "(string \<Rightarrow> exn + claims) \<Rightarrow> (string \<Rightarrow> exn + user option) \<Rightarrow> string option \<Rightarrow> mw_result" where
  "optionalAuth verifyToken findUser authHeader =
     (case extractTokenFromHeader authHeader of
        None \<Rightarrow> Next None
      | Some token \<Rightarrow>
          if token = [] then Next None
          else (case verifyToken token of
                  Inl e \<Rightarrow> Next None
                | Inr decoded \<Rightarrow>
                    (case findUser (claim_id decoded) of
                       Inl e \<Rightarrow> Next None
                     | Inr None \<Rightarrow> Next None
                     | Inr (Some u) \<Rightarrow> if isActive u then Next (Some u) else Next None)))"

section \<open>Strings and identifiers (utils/validation.js, the String methods used)\<close>

text \<open>
  A string is the list of its code units; the model covers the code units below 256.
  \<open>toLowerCase\<close> maps \<open>A\<close>-\<open>Z\<close> (and the upper-case letters of Latin-1) to their
  lower-case letters. \<open>trim\<close> removes white space at both ends.
\<close>

definition lower_char :: "char \<Rightarrow> char" where
  "lower_char c =
     (let n = (of_char c :: nat) in
      if (65 \<le> n \<and> n \<le> 90) \<or> (192 \<le> n \<and> n \<le> 222 \<and> n \<noteq> 215) then char_of (n + 32) else c)"

definition toLowerCase :: "string \<Rightarrow> string" where
  "toLowerCase s = map lower_char s"

definition is_space :: "char \<Rightarrow> bool" where
  "is_space c = (let n = (of_char c :: nat) in (9 \<le> n \<and> n \<le> 13) \<or> n = 32 \<or> n = 160)"

definition trim :: "string \<Rightarrow> string" where
  "trim s = rev (dropWhile is_space (rev (dropWhile is_space s)))"

text \<open>
  The setters of a path declared \<open>lowercase: true, trim: true\<close> (the slug, a tag): they
  are applied to a value assigned to the path and to a value the path is queried with.
\<close>

definition lowercase_trim :: "string \<Rightarrow> string" where
  "lowercase_trim s = toLowerCase (trim s)"

text \<open>\<open>isValidObjectId\<close>: the regular expression \<open>/^[0-9a-fA-F]{24}$/\<close>.\<close>

definition is_hex :: "char \<Rightarrow> bool" where
  "is_hex c =
     (let n = (of_char c :: nat) in
      (48 \<le> n \<and> n \<le> 57) \<or> (97 \<le> n \<and> n \<le> 102) \<or> (65 \<le> n \<and> n \<le> 70))"

definition isValidObjectId :: "string \<Rightarrow> bool" where
  "isValidObjectId ident = (length ident = 24 \<and> list_all is_hex ident)"

text \<open>
  The data store casts a 24-digit hexadecimal string to an ObjectId, twelve bytes, so the
  case of the digits is lost; \<open>toString()\<close> of an ObjectId writes lower-case digits.
  Identifiers are stored as that string.
\<close>

definition castObjectId :: "string \<Rightarrow> string" where
  "castObjectId ident = toLowerCase ident"

text \<open>
  \<open>isMongoId\<close> of the route validators (validator.js): \<open>isHexadecimal\<close>, the regular
  expression \<open>/^(0x|0h)?[0-9A-F]+$/i\<close>, and a length of 24. It admits what
  \<open>isValidObjectId\<close> admits and also a prefix \<open>0x\<close> or \<open>0h\<close> before 22 digits.
\<close>

definition isHexadecimal :: "string \<Rightarrow> bool" where
  "isHexadecimal s =
     ((s \<noteq> [] \<and> list_all is_hex s) \<or>
      (toLowerCase (take 2 s) \<in> {''0x'', ''0h''} \<and> drop 2 s \<noteq> [] \<and> list_all is_hex (drop 2 s)))"

definition isMongoId :: "string \<Rightarrow> bool" where
  "isMongoId s = (isHexadecimal s \<and> length s = 24)"

text \<open>
  The slug of the pre-save hook:
  \<open>title.toLowerCase().replace(/[^a-z0-9]+/g, '-').replace(/(^-|-$)/g, '')\<close>.
  \<open>replace_runs\<close> is the first replacement (each maximal run of other characters becomes
  one hyphen), \<open>strip_hyphens\<close> the second (a hyphen at the start and a hyphen at the end
  are removed).
\<close>

definition is_slug_char :: "char \<Rightarrow> bool" where
  "is_slug_char c =
     (let n = (of_char c :: nat) in (97 \<le> n \<and> n \<le> 122) \<or> (48 \<le> n \<and> n \<le> 57))"

function replace_runs :: "string \<Rightarrow> string" where
  "replace_runs [] = []"
| "replace_runs (c # cs) =
     (if is_slug_char c then c # replace_runs cs
      else CHR ''-'' # replace_runs (dropWhile (\<lambda>d. \<not> is_slug_char d) cs))"
  by pat_completeness auto
termination
  by (relation "measure length") (auto simp: le_imp_less_Suc length_dropWhile_le)

definition strip_hyphens :: "string \<Rightarrow> string" where
  "strip_hyphens s =
     (let s1 = (case s of [] \<Rightarrow> [] | c # cs \<Rightarrow> if c = CHR ''-'' then cs else s)
      in if s1 \<noteq> [] \<and> last s1 = CHR ''-'' then butlast s1 else s1)"

definition slugify :: "string \<Rightarrow> string" where
  "slugify t = strip_hyphens (replace_runs (toLowerCase t))"

text \<open>
  JavaScript truthiness of a value that is undefined or a string: undefined and the empty
  string are falsy.
\<close>

definition truthy :: "string option \<Rightarrow> bool" where
  "truthy v = (case v of None \<Rightarrow> False | Some s \<Rightarrow> s \<noteq> [])"

section \<open>The post document (models/Post.js)\<close>

datatype status = Draft | Published | Archived

record like =
  like_user :: string
  like_createdAt :: nat

record comment =
  comment_user :: string
  comment_content :: string
  comment_createdAt :: nat

text \<open>
  The fields of \<open>postSchema\<close>; \<open>createdAt\<close> and \<open>updatedAt\<close> come from
  \<open>timestamps: true\<close>. Dates are instants counted in clock ticks. A field the schema
  neither requires nor defaults is an option. There is no field for the number of likes
  or of comments.
\<close>

record post =
  post_id :: string
  title :: string
  content :: string
  author :: string
  category :: "string option"
  tags :: "string list"
  slug :: "string option"
  excerpt :: "string option"
  featuredImage :: string
  status :: status
  publishedAt :: "nat option"
  views :: nat
  likes :: "like list"
  comments :: "comment list"
  createdAt :: nat
  updatedAt :: nat

text \<open>The virtuals and the instance method.\<close>

definition likeCount :: "post \<Rightarrow> nat" where
  "likeCount p = length (likes p)"

definition commentCount :: "post \<Rightarrow> nat" where
  "commentCount p = length (comments p)"

definition isLikedByUser :: "post \<Rightarrow> string \<Rightarrow> bool" where
  "isLikedByUser p userId = list_ex (\<lambda>l. like_user l = userId) (likes p)"

text \<open>
  The paths of a document that \<open>isModified\<close> can be asked about. A path of a loaded
  document is modified when it was assigned a value different from the loaded one; every
  path given to the constructor of a new document is modified.
\<close>

datatype path = PTitle | PContent | PCategory | PTags | PExcerpt | PFeaturedImage | PStatus
  | PViews | PLikes | PComments

definition changed_paths :: "post \<Rightarrow> post \<Rightarrow> path list" where
  "changed_paths old new =
     (if title old \<noteq> title new then [PTitle] else []) @
     (if content old \<noteq> content new then [PContent] else []) @
     (if category old \<noteq> category new then [PCategory] else []) @
     (if tags old \<noteq> tags new then [PTags] else []) @
     (if excerpt old \<noteq> excerpt new then [PExcerpt] else []) @
     (if featuredImage old \<noteq> featuredImage new then [PFeaturedImage] else []) @
     (if status old \<noteq> status new then [PStatus] else []) @
     (if views old \<noteq> views new then [PViews] else []) @
     (if likes old \<noteq> likes new then [PLikes] else []) @
     (if comments old \<noteq> comments new then [PComments] else [])"

definition isModified :: "path list \<Rightarrow> path \<Rightarrow> bool" where
  "isModified mods pth = (pth \<in> set mods)"

text \<open>\<open>!this.slug\<close>: the slug is undefined or the empty string.\<close>

definition no_slug :: "post \<Rightarrow> bool" where
  "no_slug d = (\<not> truthy (slug d))"

text \<open>\<open>postSchema.pre('save')\<close>; \<open>now\<close> is the clock read by \<open>new Date()\<close>.\<close>

definition pre_save :: "nat \<Rightarrow> path list \<Rightarrow> post \<Rightarrow> post" where
  "pre_save now mods d =
     (let d1 = (if isModified mods PTitle \<and> no_slug d
                then d\<lparr>slug := Some (slugify (title d))\<rparr> else d)
      in if isModified mods PStatus \<and> status d1 = Published \<and> publishedAt d1 = None
         then d1\<lparr>publishedAt := Some now\<rparr> else d1)"

text \<open>
  The validators of the schema, which \<open>save\<close> runs before the pre-save hook on the
  paths of the document, those loaded from the store as well as those just assigned: the
  length bounds of title and content (both required, so that the empty string is
  refused), of the excerpt when there is one, and of the content of each comment. The
  author of a post and the user of a comment, required as well, are always present in a
  document of the model.
\<close>

definition validate_doc :: "post \<Rightarrow> bool" where
  "validate_doc d =
     (5 \<le> length (title d) \<and> length (title d) \<le> 100 \<and>
      10 \<le> length (content d) \<and> length (content d) \<le> 5000 \<and>
      (case excerpt d of None \<Rightarrow> True | Some e \<Rightarrow> length e \<le> 200) \<and>
      list_all (\<lambda>c. comment_content c \<noteq> [] \<and> length (comment_content c) \<le> 500)
        (comments d))"

text \<open>
  An error answer: the status code and the message of the JSON body. The errors thrown by
  \<open>save\<close> reach the global \<open>errorHandler\<close>, which answers 400 for a validation error
  and for a duplicate key.
\<close>

datatype error = Err nat string

definition validation_error :: error where
  "validation_error = Err 400 ''Validation Error''"

definition duplicate_key :: "string \<Rightarrow> error" where
  "duplicate_key field = Err 400 (field @ '' already exists'')"

text \<open>
  The collection is the list of its documents in insertion order. \<open>save\<close> of a loaded
  document: validation, the pre-save hook, \<open>updatedAt\<close>, then the write, which replaces
  the stored document of the same \<open>_id\<close>; a slug the hook has just generated must not be
  the slug of another document (\<open>unique: true\<close>). Nothing is written when no path is
  modified.
\<close>

definition save :: "nat \<Rightarrow> path list \<Rightarrow> post \<Rightarrow> post list \<Rightarrow> error + (post \<times> post list)" where
  "save now mods d store =
     (if \<not> validate_doc d then Inl validation_error
      else let d1 = pre_save now mods d;
               d2 = (if mods = [] then d1 else d1\<lparr>updatedAt := now\<rparr>)
           in if slug d2 \<noteq> slug d \<and> list_ex (\<lambda>q. post_id q \<noteq> post_id d \<and> slug q = slug d2) store
              then Inl (duplicate_key ''slug'')
              else Inr (d2, map (\<lambda>q. if post_id q = post_id d then d2 else q) store))"

text \<open>
  \<open>save\<close> of a new document: the same steps, then the insertion; \<open>_id\<close> and \<open>slug\<close>
  are unique in the collection.
\<close>

definition save_new :: "nat \<Rightarrow> path list \<Rightarrow> post \<Rightarrow> post list \<Rightarrow> error + (post \<times> post list)" where
  "save_new now mods d store =
     (if \<not> validate_doc d then Inl validation_error
      else let d1 = pre_save now mods d;
               d2 = d1\<lparr>createdAt := now, updatedAt := now\<rparr>
           in if list_ex (\<lambda>q. post_id q = post_id d2) store then Inl (duplicate_key ''_id'')
              else if list_ex (\<lambda>q. slug q = slug d2) store then Inl (duplicate_key ''slug'')
              else Inr (d2, store @ [d2]))"

text \<open>\<open>Post.findById\<close>.\<close>

definition findById :: "string \<Rightarrow> post list \<Rightarrow> post option" where
  "findById ident store = find (\<lambda>q. post_id q = castObjectId ident) store"

section \<open>The post controller (controllers/postController.js)\<close>

text \<open>
  \<open>req.body\<close> of createPost and updatePost: each field is undefined (\<open>None\<close>) or has
  a value. The route's validators admit the three status strings only.
\<close>

record post_body =
  b_title :: "string option"
  b_content :: "string option"
  b_category :: "string option"
  b_tags :: "string list option"
  b_excerpt :: "string option"
  b_featuredImage :: "string option"
  b_status :: "status option"

text \<open>\<open>!req.user || req.user.role !== 'admin'\<close>.\<close>

definition not_admin :: "user option \<Rightarrow> bool" where
  "not_admin requester = (case requester of None \<Rightarrow> True | Some u \<Rightarrow> role u \<noteq> ''admin'')"

text \<open>
  \<open>getPost\<close>: the query is by \<open>_id\<close> when the identifier has the form of an
  ObjectId, by slug otherwise (the identifier then passes through the setters of the slug
  path), and demands status published unless the requester is an admin; \<open>findOne\<close>
  gives the first document that matches. The result is the answer and the collection
  after the request.
\<close>

definition identifier_query :: "string \<Rightarrow> post \<Rightarrow> bool" where
  "identifier_query identifier q =
     (if isValidObjectId identifier then post_id q = castObjectId identifier
      else slug q = Some (lowercase_trim identifier))"

definition getPost_query :: "user option \<Rightarrow> string \<Rightarrow> post \<Rightarrow> bool" where
  "getPost_query requester identifier q =
     (identifier_query identifier q \<and> (not_admin requester \<longrightarrow> status q = Published))"

definition getPost :: "nat \<Rightarrow> user option \<Rightarrow> string \<Rightarrow> post list \<Rightarrow> (error + post) \<times> post list" where
  "getPost now requester identifier store =
     (case find (getPost_query requester identifier) store of
        None \<Rightarrow> (Inl (Err 404 ''Post not found''), store)
      | Some p \<Rightarrow>
          (case save now [PViews] (p\<lparr>views := views p + 1\<rparr>) store of
             Inl e \<Rightarrow> (Inl e, store)
           | Inr (p', store') \<Rightarrow> (Inr p', store')))"

text \<open>The setters of a tag: \<open>trim\<close> and \<open>lowercase\<close>.\<close>

definition tag_setter :: "string \<Rightarrow> string" where
  "tag_setter t = lowercase_trim t"

text \<open>
  \<open>createPost\<close>. \<open>cats\<close> holds the identifiers of the categories that exist,
  \<open>new_id\<close> is the ObjectId the constructor gives the new document, \<open>u\<close> is
  \<open>req.user\<close>, set by \<open>authenticate\<close>.
\<close>

definition new_post :: "string \<Rightarrow> user \<Rightarrow> post_body \<Rightarrow> post" where
  "new_post new_id u b =
     \<lparr>post_id = new_id,
      title = trim (case b_title b of None \<Rightarrow> [] | Some t \<Rightarrow> t),
      content = (case b_content b of None \<Rightarrow> [] | Some c \<Rightarrow> c),
      author = user_id u,
      category = (case b_category b of None \<Rightarrow> None
                  | Some c \<Rightarrow> if c \<noteq> [] then Some (castObjectId c) else None),
      tags = (case b_tags b of None \<Rightarrow> [] | Some ts \<Rightarrow> map tag_setter ts),
      slug = None,
      excerpt = b_excerpt b,
      featuredImage = (case b_featuredImage b of None \<Rightarrow> [] | Some f \<Rightarrow> f),
      status = (case b_status b of None \<Rightarrow> Draft | Some st \<Rightarrow> st),
      publishedAt = None,
      views = 0,
      likes = [],
      comments = [],
      createdAt = 0,
      updatedAt = 0\<rparr>"

definition new_paths :: "path list" where
  "new_paths = [PTitle, PContent, PCategory, PTags, PExcerpt, PFeaturedImage, PStatus]"

definition category_check :: "string list \<Rightarrow> string \<Rightarrow> error option" where
  "category_check cats c =
     (if \<not> isValidObjectId c then Some (Err 400 ''Invalid category ID'')
      else if castObjectId c \<notin> set cats then Some (Err 400 ''Category not found'')
      else None)"

definition createPost ::
  "string list \<Rightarrow> nat \<Rightarrow> string \<Rightarrow> user \<Rightarrow> post_body \<Rightarrow> post list \<Rightarrow> (error + post) \<times> post list" where
  "createPost cats now new_id u b store =
     (if \<not> truthy (b_title b) \<or> \<not> truthy (b_content b)
      then (Inl (Err 400 ''Title and content are required''), store)
      else case (case b_category b of None \<Rightarrow> None
                 | Some c \<Rightarrow> if c \<noteq> [] then category_check cats c else None) of
             Some e \<Rightarrow> (Inl e, store)
           | None \<Rightarrow>
               (case save_new now new_paths (new_post new_id u b) store of
                  Inl e \<Rightarrow> (Inl e, store)
                | Inr (p, store') \<Rightarrow> (Inr p, store')))"

text \<open>The assignments of \<open>updatePost\<close> (\<open>if (title) post.title = title\<close> and so on).\<close>

definition update_fields :: "post_body \<Rightarrow> post \<Rightarrow> post" where
  "update_fields b p =
     (let p1 = (case b_title b of None \<Rightarrow> p
                | Some t \<Rightarrow> if t \<noteq> [] then p\<lparr>title := trim t\<rparr> else p);
          p2 = (case b_content b of None \<Rightarrow> p1
                | Some c \<Rightarrow> if c \<noteq> [] then p1\<lparr>content := c\<rparr> else p1);
          p3 = (case b_category b of None \<Rightarrow> p2
                | Some c \<Rightarrow> p2\<lparr>category := (if c \<noteq> [] then Some (castObjectId c) else None)\<rparr>);
          p4 = (case b_tags b of None \<Rightarrow> p3 | Some ts \<Rightarrow> p3\<lparr>tags := map tag_setter ts\<rparr>);
          p5 = (case b_excerpt b of None \<Rightarrow> p4 | Some e \<Rightarrow> p4\<lparr>excerpt := Some e\<rparr>);
          p6 = (case b_featuredImage b of None \<Rightarrow> p5 | Some f \<Rightarrow> p5\<lparr>featuredImage := f\<rparr>)
      in (case b_status b of None \<Rightarrow> p6 | Some st \<Rightarrow> p6\<lparr>status := st\<rparr>))"

definition updatePost ::
  "string list \<Rightarrow> nat \<Rightarrow> user \<Rightarrow> string \<Rightarrow> post_body \<Rightarrow> post list \<Rightarrow> (error + post) \<times> post list" where
  "updatePost cats now u ident b store =
     (if \<not> isValidObjectId ident then (Inl (Err 400 ''Invalid post ID''), store)
      else case findById ident store of
             None \<Rightarrow> (Inl (Err 404 ''Post not found''), store)
           | Some p \<Rightarrow>
               if author p \<noteq> user_id u \<and> role u \<noteq> ''admin''
               then (Inl (Err 403 ''Not authorized to update this post''), store)
               else (case (case b_category b of None \<Rightarrow> None
                           | Some c \<Rightarrow> if c \<noteq> [] \<and> Some c \<noteq> category p
                                       then category_check cats c else None) of
                       Some e \<Rightarrow> (Inl e, store)
                     | None \<Rightarrow>
                         (let p1 = update_fields b p in
                          case save now (changed_paths p p1) p1 store of
                            Inl e \<Rightarrow> (Inl e, store)
                          | Inr (p2, store') \<Rightarrow> (Inr p2, store'))))"

definition deletePost :: "user \<Rightarrow> string \<Rightarrow> post list \<Rightarrow> (error + unit) \<times> post list" where
  "deletePost u ident store =
     (if \<not> isValidObjectId ident then (Inl (Err 400 ''Invalid post ID''), store)
      else case findById ident store of
             None \<Rightarrow> (Inl (Err 404 ''Post not found''), store)
           | Some p \<Rightarrow>
               if author p \<noteq> user_id u \<and> role u \<noteq> ''admin''
               then (Inl (Err 403 ''Not authorized to delete this post''), store)
               else (Inr (), filter (\<lambda>q. post_id q \<noteq> castObjectId ident) store))"

text \<open>
  \<open>toggleLike\<close>. \<open>findIndex\<close> gives the first position whose entry is the requester's
  (\<open>None\<close> for -1), \<open>splice(likeIndex, 1)\<close> removes the entry at that position, \<open>push\<close>
  appends an entry stamped now. The answer carries \<open>post.likes.length\<close> and
  \<open>likeIndex === -1\<close>.
\<close>

fun findIndex :: "('a \<Rightarrow> bool) \<Rightarrow> 'a list \<Rightarrow> nat option" where
  "findIndex P [] = None"
| "findIndex P (x # xs) =
     (if P x then Some 0 else (case findIndex P xs of None \<Rightarrow> None | Some i \<Rightarrow> Some (Suc i)))"

definition splice1 :: "nat \<Rightarrow> 'a list \<Rightarrow> 'a list" where
  "splice1 i xs = take i xs @ drop (Suc i) xs"

record like_result =
  res_likeCount :: nat
  res_isLiked :: bool

definition toggleLike ::
  "nat \<Rightarrow> user \<Rightarrow> string \<Rightarrow> post list \<Rightarrow> (error + like_result) \<times> post list" where
  "toggleLike now u ident store =
     (if \<not> isValidObjectId ident then (Inl (Err 400 ''Invalid post ID''), store)
      else case findById ident store of
             None \<Rightarrow> (Inl (Err 404 ''Post not found''), store)
           | Some p \<Rightarrow>
               (let likeIndex = findIndex (\<lambda>l. like_user l = user_id u) (likes p);
                    p1 = (case likeIndex of
                            Some i \<Rightarrow> p\<lparr>likes := splice1 i (likes p)\<rparr>
                          | None \<Rightarrow> p\<lparr>likes := likes p @
                                       [\<lparr>like_user = user_id u, like_createdAt = now\<rparr>]\<rparr>)
                in case save now [PLikes] p1 store of
                     Inl e \<Rightarrow> (Inl e, store)
                   | Inr (p2, store') \<Rightarrow>
                       (Inr \<lparr>res_likeCount = length (likes p2), res_isLiked = (likeIndex = None)\<rparr>,
                        store')))"

definition addComment ::
  "nat \<Rightarrow> user \<Rightarrow> string \<Rightarrow> string option \<Rightarrow> post list \<Rightarrow> (error + comment) \<times> post list" where
  "addComment now u ident body_content store =
     (case body_content of
        None \<Rightarrow> (Inl (Err 400 ''Comment content is required''), store)
      | Some c \<Rightarrow>
          if c = [] \<or> length (trim c) = 0
          then (Inl (Err 400 ''Comment content is required''), store)
          else if \<not> isValidObjectId ident then (Inl (Err 400 ''Invalid post ID''), store)
          else (case findById ident store of
                  None \<Rightarrow> (Inl (Err 404 ''Post not found''), store)
                | Some p \<Rightarrow>
                    (let cm = \<lparr>comment_user = user_id u, comment_content = trim c,
                               comment_createdAt = now\<rparr>;
                         p1 = p\<lparr>comments := comments p @ [cm]\<rparr>
                     in case save now [PComments] p1 store of
                          Inl e \<Rightarrow> (Inl e, store)
                        | Inr (p2, store') \<Rightarrow> (Inr (last (comments p2)), store'))))"

section \<open>Listing posts (getPosts and the validators of its route)\<close>

text \<open>
  \<open>req.query\<close>. The validators of the route admit, for \<open>page\<close> and \<open>limit\<close>,
  only strings that are integers, for \<open>status\<close>, \<open>sortBy\<close> and \<open>sortOrder\<close> only the
  listed words; a parameter is \<open>None\<close> when the query does not have it. \<open>page\<close>
  and \<open>limit\<close> are the integers the strings write.
\<close>

datatype sort_field = SortCreatedAt | SortUpdatedAt | SortTitle | SortViews | SortPublishedAt

datatype sort_order = Asc | Desc

record posts_query =
  q_page :: "int option"
  q_limit :: "int option"
  q_status :: "status option"
  q_category :: "string option"
  q_author :: "string option"
  q_search :: "string option"
  q_sortBy :: "sort_field option"
  q_sortOrder :: "sort_order option"

text \<open>
  \<open>getPostsValidation\<close>: \<open>page\<close> at least 1, \<open>limit\<close> from 1 to 100, \<open>category\<close>
  and \<open>author\<close> admitted by \<open>isMongoId\<close>, each only when present.
\<close>

definition getPostsValidation :: "posts_query \<Rightarrow> bool" where
  "getPostsValidation q =
     ((case q_page q of None \<Rightarrow> True | Some n \<Rightarrow> 1 \<le> n) \<and>
      (case q_limit q of None \<Rightarrow> True | Some n \<Rightarrow> 1 \<le> n \<and> n \<le> 100) \<and>
      (case q_category q of None \<Rightarrow> True | Some c \<Rightarrow> isMongoId c) \<and>
      (case q_author q of None \<Rightarrow> True | Some a \<Rightarrow> isMongoId a))"

text \<open>
  The query object that \<open>getPosts\<close> builds. The regular expression engine is a
  parameter: \<open>regex pat\<close> is \<open>Inl msg\<close> when \<open>pat\<close> is not a regular expression (the
  constructor throws) and otherwise \<open>Inr m\<close>, with \<open>m\<close> the case-insensitive test.
\<close>

record post_filter =
  f_status :: "status option"
  f_category :: "string option"
  f_author :: "string option"
  f_search :: "(string \<Rightarrow> bool) option"

definition build_query ::
  "(string \<Rightarrow> string + (string \<Rightarrow> bool)) \<Rightarrow> user option \<Rightarrow> posts_query \<Rightarrow> string + post_filter" where
  "build_query regex requester q =
     (let st = (case q_status q of
                  Some s \<Rightarrow> Some s
                | None \<Rightarrow> if not_admin requester then Some Published else None);
          cat = (case q_category q of None \<Rightarrow> None
                 | Some c \<Rightarrow> if c \<noteq> [] \<and> isValidObjectId c then Some (castObjectId c) else None);
          au = (case q_author q of None \<Rightarrow> None
                | Some a \<Rightarrow> if a \<noteq> [] \<and> isValidObjectId a then Some (castObjectId a) else None)
      in case q_search q of
           None \<Rightarrow> Inr \<lparr>f_status = st, f_category = cat, f_author = au, f_search = None\<rparr>
         | Some pat \<Rightarrow>
             if pat = [] then Inr \<lparr>f_status = st, f_category = cat, f_author = au, f_search = None\<rparr>
             else (case regex pat of
                     Inl msg \<Rightarrow> Inl msg
                   | Inr m \<Rightarrow> Inr \<lparr>f_status = st, f_category = cat, f_author = au,
                                   f_search = Some m\<rparr>))"

definition matches :: "post_filter \<Rightarrow> post \<Rightarrow> bool" where
  "matches f p =
     ((case f_status f of None \<Rightarrow> True | Some s \<Rightarrow> status p = s) \<and>
      (case f_category f of None \<Rightarrow> True | Some c \<Rightarrow> category p = Some c) \<and>
      (case f_author f of None \<Rightarrow> True | Some a \<Rightarrow> author p = a) \<and>
      (case f_search f of None \<Rightarrow> True
       | Some m \<Rightarrow> m (title p) \<or> m (content p) \<or> list_ex m (tags p)))"

text \<open>
  The order of \<open>sort\<close>: numbers by size, strings by their code units, an absent
  \<open>publishedAt\<close> before every date; \<open>-1\<close> turns the order round. Documents with equal
  keys keep their order.
\<close>

fun str_le :: "string \<Rightarrow> string \<Rightarrow> bool" where
  "str_le [] ys = True"
| "str_le (x # xs) [] = False"
| "str_le (x # xs) (y # ys) =
     ((of_char x :: nat) < of_char y \<or> (x = y \<and> str_le xs ys))"

definition date_le :: "nat option \<Rightarrow> nat option \<Rightarrow> bool" where
  "date_le a b =
     (case a of None \<Rightarrow> True | Some x \<Rightarrow> (case b of None \<Rightarrow> False | Some y \<Rightarrow> x \<le> y))"

definition field_le :: "sort_field \<Rightarrow> post \<Rightarrow> post \<Rightarrow> bool" where
  "field_le fld a b =
     (case fld of
        SortCreatedAt \<Rightarrow> createdAt a \<le> createdAt b
      | SortUpdatedAt \<Rightarrow> updatedAt a \<le> updatedAt b
      | SortTitle \<Rightarrow> str_le (title a) (title b)
      | SortViews \<Rightarrow> views a \<le> views b
      | SortPublishedAt \<Rightarrow> date_le (publishedAt a) (publishedAt b))"

definition post_le :: "sort_field \<Rightarrow> sort_order \<Rightarrow> post \<Rightarrow> post \<Rightarrow> bool" where
  "post_le fld ord a b = (if ord = Desc then field_le fld b a else field_le fld a b)"

fun insort_by :: "('a \<Rightarrow> 'a \<Rightarrow> bool) \<Rightarrow> 'a \<Rightarrow> 'a list \<Rightarrow> 'a list" where
  "insort_by le x [] = [x]"
| "insort_by le x (y # ys) = (if le x y then x # y # ys else y # insort_by le x ys)"

definition sort_by :: "('a \<Rightarrow> 'a \<Rightarrow> bool) \<Rightarrow> 'a list \<Rightarrow> 'a list" where
  "sort_by le xs = foldr (insort_by le) xs []"

record pagination =
  currentPage :: int
  totalPages :: int
  totalPosts :: int
  hasNextPage :: bool
  hasPrevPage :: bool
  limit :: int

record posts_page =
  posts :: "post list"
  pagination :: pagination

text \<open>
  JavaScript numbers are doubles. An integer up to \<open>2 ^ 53\<close> is a double, and the
  arithmetic of \<open>getPosts\<close> on a page up to it is the arithmetic of integers: where
  \<open>skip\<close> leaves that range it is beyond every document anyhow (a collection holds
  fewer than \<open>2 ^ 53\<close> documents). \<open>parseInt\<close> of a larger page is a rounded double,
  or Infinity, and the store may refuse the skip computed from it; the skip is beyond
  every document again. What the handler answers then, an error or the pagination block
  beside no posts, is the parameter \<open>big_page\<close>, given the page, the limit and the
  total.
\<close>

definition max_safe_integer :: int where
  "max_safe_integer = 2 ^ 53"

text \<open>
  \<open>getPosts\<close>. \<open>Math.ceil(total / limit)\<close> is \<open>- ((- total) div limit)\<close> for a limit
  other than 0; the route admits no other limit, and no page below 1, so that \<open>skip\<close> is
  not negative.
\<close>

definition getPosts ::
  "(string \<Rightarrow> string + (string \<Rightarrow> bool)) \<Rightarrow> (int \<Rightarrow> int \<Rightarrow> int \<Rightarrow> error + pagination) \<Rightarrow>
     user option \<Rightarrow> posts_query \<Rightarrow> post list \<Rightarrow> error + posts_page" where
  "getPosts regex big_page requester q store =
     (let page = (case q_page q of None \<Rightarrow> 1 | Some n \<Rightarrow> n);
          lim = (case q_limit q of None \<Rightarrow> 10 | Some n \<Rightarrow> n);
          sortBy = (case q_sortBy q of None \<Rightarrow> SortCreatedAt | Some f \<Rightarrow> f);
          sortOrder = (case q_sortOrder q of None \<Rightarrow> Desc | Some ord \<Rightarrow> ord)
      in case build_query regex requester q of
           Inl msg \<Rightarrow> Inl (Err 500 msg)
         | Inr query \<Rightarrow>
             (let skip = (page - 1) * lim;
                  found = filter (matches query) store;
                  total = int (length found);
                  totalPages = - ((- total) div lim)
              in if max_safe_integer < page
                 then (case big_page page lim total of
                         Inl e \<Rightarrow> Inl e
                       | Inr pgn \<Rightarrow> Inr \<lparr>posts = [], pagination = pgn\<rparr>)
                 else Inr \<lparr>posts = take (nat lim)
                                      (drop (nat skip) (sort_by (post_le sortBy sortOrder) found)),
                           pagination = \<lparr>currentPage = page, totalPages = totalPages,
                                         totalPosts = total, hasNextPage = (page < totalPages),
                                         hasPrevPage = (page > 1), limit = lim\<rparr>\<rparr>))"

text \<open>
  Modelled from the spec: the \<open>validate\<close> middleware of middleware/validation.js, which
  is not among the sources. The spec: bad input bounds are a ValidationError, answered
  with 400 before the handler runs. The route is
  \<open>getPostsValidation, validate, optionalAuth, getPosts\<close>; \<open>requester\<close> is what
  \<open>optionalAuth\<close> attached.
\<close>

definition getPosts_route ::
  "(string \<Rightarrow> string + (string \<Rightarrow> bool)) \<Rightarrow> (int \<Rightarrow> int \<Rightarrow> int \<Rightarrow> error + pagination) \<Rightarrow>
     user option \<Rightarrow> posts_query \<Rightarrow> post list \<Rightarrow> error + posts_page" where
  "getPosts_route regex big_page requester q store =
     (if \<not> getPostsValidation q then Inl (Err 400 ''Validation failed'')
      else getPosts regex big_page requester q store)"

section \<open>Sequences of requests\<close>

text \<open>
  A request that reached its handler, with the identity the middleware attached. Each
  request is served at an instant \<open>now\<close>; the collection after it is the second
  component of the handler's result. \<open>getPosts\<close> writes nothing.
\<close>

datatype request =
    GetPosts "user option" posts_query
  | GetPost "user option" string
  | CreatePost string user post_body
  | UpdatePost user string post_body
  | DeletePost user string
  | ToggleLike user string
  | AddComment user string "string option"

fun step :: "string list \<Rightarrow> post list \<Rightarrow> nat \<times> request \<Rightarrow> post list" where
  "step cats store (now, GetPosts requester q) = store"
| "step cats store (now, GetPost requester identifier) = snd (getPost now requester identifier store)"
| "step cats store (now, CreatePost new_id u b) = snd (createPost cats now new_id u b store)"
| "step cats store (now, UpdatePost u ident b) = snd (updatePost cats now u ident b store)"
| "step cats store (now, DeletePost u ident) = snd (deletePost u ident store)"
| "step cats store (now, ToggleLike u ident) = snd (toggleLike now u ident store)"
| "step cats store (now, AddComment u ident c) = snd (addComment now u ident c store)"

definition run :: "string list \<Rightarrow> post list \<Rightarrow> (nat \<times> request) list \<Rightarrow> post list" where
  "run cats store reqs = foldl (step cats) store reqs"

text \<open>The stored document of an identifier.\<close>

definition lookup :: "string \<Rightarrow> post list \<Rightarrow> post option" where
  "lookup pid store = find (\<lambda>q. post_id q = pid) store"

text \<open>Every \<open>_id\<close> is held by one document; the store's index on \<open>_id\<close> sees to it.\<close>

definition ids_unique :: "post list \<Rightarrow> bool" where
  "ids_unique store = distinct (map post_id store)"

text \<open>No user has two entries in the likes of a post.\<close>

definition one_like_each :: "post \<Rightarrow> bool" where
  "one_like_each p = distinct (map like_user (likes p))"

text \<open>
  What every request other than a deletion keeps of a stored document: its \<open>_id\<close> and
  author, its slug once the slug is a non-empty string, its \<open>publishedAt\<close> once set,
  and that no user has two like entries. \<open>rewritten\<close> relates the collection before and
  after a request that replaced at most the documents of one \<open>_id\<close>, by a document
  that passed the validators.
\<close>

definition evolves :: "post \<Rightarrow> post \<Rightarrow> bool" where
  "evolves p p2 =
     (post_id p2 = post_id p \<and> author p2 = author p \<and>
      (truthy (slug p) \<longrightarrow> slug p2 = slug p) \<and>
      (publishedAt p \<noteq> None \<longrightarrow> publishedAt p2 = publishedAt p) \<and>
      (one_like_each p \<longrightarrow> one_like_each p2))"

definition rewritten :: "post list \<Rightarrow> post list \<Rightarrow> bool" where
  "rewritten store store' =
     (store' = store \<or>
      (\<exists>p \<in> set store. \<exists>p2. evolves p p2 \<and> validate_doc p2 \<and>
         store' = map (\<lambda>q. if post_id q = post_id p then p2 else q) store))"

fun is_delete :: "request \<Rightarrow> bool" where
  "is_delete (DeletePost u ident) = True"
| "is_delete r = False"

text \<open>
  The request deletes the post of \<open>_id\<close> \<open>pid\<close>: it is a deletion, aimed at that post,
  and the handler carries it out. \<open>deleted_along\<close>: some request of the sequence does,
  in the collection it meets.
\<close>

fun deletes_post :: "post list \<Rightarrow> string \<Rightarrow> request \<Rightarrow> bool" where
  "deletes_post store pid (DeletePost u ident) =
     (castObjectId ident = pid \<and> fst (deletePost u ident store) = Inr ())"
| "deletes_post store pid r = False"

fun deleted_along :: "string list \<Rightarrow> string \<Rightarrow> post list \<Rightarrow> (nat \<times> request) list \<Rightarrow> bool" where
  "deleted_along cats pid store [] = False"
| "deleted_along cats pid store (nr # reqs) =
     (deletes_post store pid (snd nr) \<or> deleted_along cats pid (step cats store nr) reqs)"

text \<open>
  The collections the handlers keep: every document passes the validators and has no
  user twice in its likes. The empty collection is one, and every request leaves one.
\<close>

definition store_ok :: "post list \<Rightarrow> bool" where
  "store_ok store = list_all (\<lambda>p. validate_doc p \<and> one_like_each p) store"

section \<open>Example documents\<close>

text \<open>Two authors, an admin, a draft and a published post of the first author.\<close>

definition alice :: user where
  "alice = \<lparr>user_id = ''64b7f0a1c2d3e4f5a6b7c801'', username = ''alice'',
            email = ''alice@example.com'', role = ''user'', isActive = True\<rparr>"

definition bob :: user where
  "bob = \<lparr>user_id = ''64b7f0a1c2d3e4f5a6b7c802'', username = ''bob'',
          email = ''bob@example.com'', role = ''user'', isActive = True\<rparr>"

definition carol :: user where
  "carol = \<lparr>user_id = ''64b7f0a1c2d3e4f5a6b7c803'', username = ''carol'',
            email = ''carol@example.com'', role = ''admin'', isActive = True\<rparr>"

definition draft_post :: post where
  "draft_post =
     \<lparr>post_id = ''64b7f0a1c2d3e4f5a6b7c9a1'', title = ''My first draft'',
      content = ''Some words for the draft'', author = ''64b7f0a1c2d3e4f5a6b7c801'',
      category = None, tags = [], slug = Some ''my-first-draft'', excerpt = None,
      featuredImage = [], status = Draft, publishedAt = None, views = 0, likes = [],
      comments = [], createdAt = 1, updatedAt = 1\<rparr>"

definition live_post :: post where
  "live_post =
     \<lparr>post_id = ''64b7f0a1c2d3e4f5a6b7c9a2'', title = ''Hello World'',
      content = ''Some words for everybody'', author = ''64b7f0a1c2d3e4f5a6b7c801'',
      category = None, tags = [], slug = Some ''hello-world'', excerpt = None,
      featuredImage = [], status = Published, publishedAt = Some 2, views = 3, likes = [],
      comments = [], createdAt = 2, updatedAt = 2\<rparr>"

text \<open>A token verifier and a user lookup: one good token, one user, deactivated.\<close>

definition verify_one :: "string \<Rightarrow> exn + claims" where
  "verify_one t =
     (if t = ''good'' then Inr \<lparr>claim_id = ''64b7f0a1c2d3e4f5a6b7c802'', claim_role = ''user''\<rparr>
      else if t = ''stale'' then Inl TokenExpiredError
      else Inl JsonWebTokenError)"

definition find_deactivated :: "string \<Rightarrow> exn + user option" where
  "find_deactivated i =
     (if i = ''64b7f0a1c2d3e4f5a6b7c802'' then Inr (Some (bob\<lparr>isActive := False\<rparr>))
      else Inr None)"

text \<open>The body of the model test of the slug, and the document createPost makes of it.\<close>

definition slug_body :: post_body where
  "slug_body = \<lparr>b_title = Some ''This is a Test Post Title!'',
                 b_content = Some ''Content for slug generation test'', b_category = None,
                 b_tags = None, b_excerpt = None, b_featuredImage = None, b_status = None\<rparr>"

definition created_post :: post where
  "created_post =
     \<lparr>post_id = ''64b7f0a1c2d3e4f5a6b7c9a3'', title = ''This is a Test Post Title!'',
      content = ''Content for slug generation test'', author = ''64b7f0a1c2d3e4f5a6b7c801'',
      category = None, tags = [], slug = Some ''this-is-a-test-post-title'', excerpt = None,
      featuredImage = [], status = Draft, publishedAt = None, views = 0, likes = [],
      comments = [], createdAt = 5, updatedAt = 5\<rparr>"

text \<open>A query without any parameter, and an engine that takes no pattern.\<close>

definition no_filters :: posts_query where
  "no_filters = \<lparr>q_page = None, q_limit = None, q_status = None, q_category = None,
                  q_author = None, q_search = None, q_sortBy = None, q_sortOrder = None\<rparr>"

definition no_regex :: "string \<Rightarrow> string + (string \<Rightarrow> bool)" where
  "no_regex pat = Inl ''Invalid regular expression''"

text \<open>A store that refuses every skip above the exact integers.\<close>

definition refuse_big :: "int \<Rightarrow> int \<Rightarrow> int \<Rightarrow> error + pagination" where
  "refuse_big page lim n = Inl (Err 500 ''Internal Server Error'')"

text \<open>A request body without any field.\<close>

definition no_fields :: post_body where
  "no_fields = \<lparr>b_title = None, b_content = None, b_category = None, b_tags = None,
                 b_excerpt = None, b_featuredImage = None, b_status = None\<rparr>"

section \<open>Properties of the access control guard\<close>

text \<open>
  C6: optionalAuth never answers the request itself: it always calls next. It attaches no
  identity when the Authorization header is absent, when the header is not of the form
  \<open>Bearer <token>\<close> or carries an empty token, when the verifier rejects the token
  (invalid or expired), and when the user lookup fails.
\<close>

theorem C6_optionalAuth_never_fails:
  "(\<exists>u. optionalAuth verifyToken findUser authHeader = Next u) \<and>
   (optionalAuth verifyToken findUser None = Next None) \<and>
   (take 7 h \<noteq> ''Bearer '' \<longrightarrow> optionalAuth verifyToken findUser (Some h) = Next None) \<and>
   (verifyToken (drop 7 h) = Inl e \<longrightarrow> optionalAuth verifyToken findUser (Some h) = Next None) \<and>
   (verifyToken (drop 7 h) = Inr decoded \<and> findUser (claim_id decoded) = Inl e
      \<longrightarrow> optionalAuth verifyToken findUser (Some h) = Next None) \<and>
   (optionalAuth verifyToken findUser (Some ''Bearer '') = Next None)"
  by (auto simp: optionalAuth_def extractTokenFromHeader_def split: option.splits sum.splits)

theorem C6_optionalAuth_never_fails_witness:
  "take 7 ''Basic abc'' \<noteq> ''Bearer '' \<and>
   verify_one (drop 7 ''Bearer stale'') = Inl TokenExpiredError \<and>
   optionalAuth verify_one find_deactivated (Some ''Basic abc'') = Next None \<and>
   optionalAuth verify_one find_deactivated (Some ''Bearer stale'') = Next None"
  using C6_optionalAuth_never_fails
          [of verify_one find_deactivated None "''Basic abc''" TokenExpiredError undefined]
        C6_optionalAuth_never_fails
          [of verify_one find_deactivated None "''Bearer stale''" TokenExpiredError undefined]
  by (simp add: verify_one_def)

text \<open>
  C10: with a token that verifies, when the account it names does not exist or is
  deactivated, optionalAuth calls next with no identity attached, and authenticate
  answers 401.
\<close>

theorem C10_optionalAuth_inactive_or_missing:
  "extractTokenFromHeader authHeader = Some token \<Longrightarrow> token \<noteq> [] \<Longrightarrow>
   verifyToken token = Inr decoded \<Longrightarrow>
   findUser (claim_id decoded) = Inr None \<or>
     (\<exists>u. findUser (claim_id decoded) = Inr (Some u) \<and> \<not> isActive u) \<Longrightarrow>
   optionalAuth verifyToken findUser authHeader = Next None \<and>
   (\<exists>msg. authenticate verifyToken findUser authHeader = Responded 401 msg)"
  by (auto simp: optionalAuth_def authenticate_def)

theorem C10_optionalAuth_inactive_or_missing_witness:
  "extractTokenFromHeader (Some ''Bearer good'') = Some ''good'' \<and>
   verify_one ''good'' = Inr \<lparr>claim_id = ''64b7f0a1c2d3e4f5a6b7c802'', claim_role = ''user''\<rparr> \<and>
   find_deactivated ''64b7f0a1c2d3e4f5a6b7c802'' = Inr (Some (bob\<lparr>isActive := False\<rparr>)) \<and>
   optionalAuth verify_one find_deactivated (Some ''Bearer good'') = Next None \<and>
   authenticate verify_one find_deactivated (Some ''Bearer good'') =
     Responded 401 ''User account is deactivated''"
proof -
  have h1: "extractTokenFromHeader (Some ''Bearer good'') = Some ''good''"
    by (simp add: extractTokenFromHeader_def)
  have h2: "''good'' \<noteq> []"
    by simp
  have h3: "verify_one ''good'' =
      Inr \<lparr>claim_id = ''64b7f0a1c2d3e4f5a6b7c802'', claim_role = ''user''\<rparr>"
    by (simp add: verify_one_def)
  have h4: "find_deactivated ''64b7f0a1c2d3e4f5a6b7c802'' = Inr (Some (bob\<lparr>isActive := False\<rparr>))"
    by (simp add: find_deactivated_def)
  have h5: "find_deactivated (claim_id \<lparr>claim_id = ''64b7f0a1c2d3e4f5a6b7c802'', claim_role = ''user''\<rparr>) = Inr None \<or>
      (\<exists>u. find_deactivated (claim_id \<lparr>claim_id = ''64b7f0a1c2d3e4f5a6b7c802'', claim_role = ''user''\<rparr>) = Inr (Some u) \<and> \<not> isActive u)"
    using h4 by simp
  have a: "authenticate verify_one find_deactivated (Some ''Bearer good'') =
      Responded 401 ''User account is deactivated''"
    by (simp add: authenticate_def h1 h3 h4)
  from C10_optionalAuth_inactive_or_missing
         [of "Some ''Bearer good''" "''good''" verify_one
             "\<lparr>claim_id = ''64b7f0a1c2d3e4f5a6b7c802'', claim_role = ''user''\<rparr>"
             find_deactivated, OF h1 h2 h3 h5]
       h1 h3 h4 a
  show ?thesis
    by simp
qed

section \<open>Properties of the store and of save\<close>

lemma validate_doc_frame:
  "validate_doc (d\<lparr>views := v\<rparr>) = validate_doc d"
  "validate_doc (d\<lparr>likes := ls\<rparr>) = validate_doc d"
  "validate_doc (d\<lparr>slug := sl\<rparr>) = validate_doc d"
  "validate_doc (d\<lparr>publishedAt := pa\<rparr>) = validate_doc d"
  "validate_doc (d\<lparr>createdAt := t\<rparr>) = validate_doc d"
  "validate_doc (d\<lparr>updatedAt := t\<rparr>) = validate_doc d"
  by (simp_all add: validate_doc_def)

lemma save_invalid: "\<not> validate_doc d \<Longrightarrow> save now mods d store = Inl validation_error"
  by (simp add: save_def)

lemma save_views:
  "validate_doc d \<Longrightarrow>
   save now [PViews] d store =
     Inr (d\<lparr>updatedAt := now\<rparr>, map (\<lambda>q. if post_id q = post_id d then d\<lparr>updatedAt := now\<rparr> else q) store)"
  by (simp add: save_def isModified_def pre_save_def Let_def)

lemma save_likes:
  "validate_doc d \<Longrightarrow>
   save now [PLikes] d store =
     Inr (d\<lparr>updatedAt := now\<rparr>, map (\<lambda>q. if post_id q = post_id d then d\<lparr>updatedAt := now\<rparr> else q) store)"
  by (simp add: save_def isModified_def pre_save_def Let_def)

lemma lookup_replace:
  "post_id d' = i \<Longrightarrow>
   lookup pid (map (\<lambda>q. if post_id q = i then d' else q) store) =
     (if pid = i then (if lookup i store = None then None else Some d') else lookup pid store)"
  by (induction store) (auto simp: lookup_def)

lemma find_mem: "find P store = Some p \<Longrightarrow> p \<in> set store"
  by (induction store) (auto split: if_splits)

lemma find_sat: "find P store = Some p \<Longrightarrow> P p"
  by (induction store) (auto split: if_splits)

lemma lookup_present: "p \<in> set store \<Longrightarrow> lookup (post_id p) store \<noteq> None"
  by (induction store) (auto simp: lookup_def)

lemma getPost_missing: "find (getPost_query requester identifier) store = None \<Longrightarrow> getPost now requester identifier store = (Inl (Err 404 ''Post not found''), store)"
  by (simp add: getPost_def)

lemma getPost_found:
  "find (getPost_query requester identifier) store = Some p \<Longrightarrow> validate_doc p \<Longrightarrow>
   getPost now requester identifier store =
     (Inr (p\<lparr>views := views p + 1, updatedAt := now\<rparr>),
      map (\<lambda>q. if post_id q = post_id p then p\<lparr>views := views p + 1, updatedAt := now\<rparr> else q)
        store)"
  by (simp add: getPost_def save_views validate_doc_frame)

lemma getPost_invalid:
  "find (getPost_query requester identifier) store = Some p \<Longrightarrow> \<not> validate_doc p \<Longrightarrow>
   getPost now requester identifier store = (Inl validation_error, store)"
  by (simp add: getPost_def save_invalid validate_doc_frame)

lemma lookup_replaced:
  assumes "p \<in> set store" and "post_id p' = post_id p"
  shows "lookup pid (map (\<lambda>q. if post_id q = post_id p then p' else q) store) =
      (if pid = post_id p then Some p' else lookup pid store)"
proof -
  have "lookup (post_id p) store \<noteq> None"
    using assms(1) by (rule lookup_present)
  then show ?thesis
    by (auto simp: lookup_replace [OF assms(2)])
qed


lemma findIndex_None: "(findIndex P xs = None) = (\<not> list_ex P xs)"
  by (induction xs) (auto split: option.splits)

lemma splice1_Cons: "splice1 (Suc i) (x # xs) = x # splice1 i xs"
  by (simp add: splice1_def)

lemma splice1_first:
  "findIndex P xs = Some i \<Longrightarrow> length (filter P xs) \<le> 1 \<Longrightarrow>
   splice1 i xs = filter (\<lambda>x. \<not> P x) xs"
proof (induction xs arbitrary: i)
  case Nil
  then show ?case by simp
next
  case (Cons x xs)
  show ?case
  proof (cases "P x")
    case True
    with Cons.prems have "i = 0" and "filter P xs = []"
      by simp_all
    then have "filter (\<lambda>x. \<not> P x) xs = xs"
      by (simp add: filter_empty_conv)
    with True \<open>i = 0\<close> show ?thesis
      by (simp add: splice1_def)
  next
    case False
    with Cons.prems obtain j where j: "findIndex P xs = Some j" "i = Suc j"
      by (auto split: option.splits)
    with Cons.IH [of j] Cons.prems False show ?thesis
      by (simp add: splice1_Cons)
  qed
qed

lemma splice1_length: "findIndex P xs = Some i \<Longrightarrow> Suc (length (splice1 i xs)) = length xs"
proof (induction xs arbitrary: i)
  case Nil
  then show ?case by simp
next
  case (Cons x xs)
  show ?case
  proof (cases "P x")
    case True
    with Cons.prems show ?thesis by (simp add: splice1_def)
  next
    case False
    with Cons.prems obtain j where j: "findIndex P xs = Some j" "i = Suc j"
      by (auto split: option.splits)
    with Cons.IH [of j] show ?thesis
      by (simp add: splice1_Cons)
  qed
qed

lemma findIndex_append_new:
  "\<not> list_ex P xs \<Longrightarrow> P y \<Longrightarrow> findIndex P (xs @ [y]) = Some (length xs)"
  by (induction xs) auto

lemma splice1_append_new: "splice1 (length xs) (xs @ [y]) = xs"
  by (simp add: splice1_def)

lemma findById_lookup: "findById ident store = lookup (castObjectId ident) store"
  by (simp add: findById_def lookup_def)

lemma lookup_id: "lookup pid store = Some p \<Longrightarrow> post_id p = pid"
  unfolding lookup_def by (drule find_sat) simp

lemma lookup_mem: "lookup pid store = Some p \<Longrightarrow> p \<in> set store"
  unfolding lookup_def by (rule find_mem)

lemma toggleLike_found:
  assumes "isValidObjectId ident" and "findById ident store = Some p" and "validate_doc p"
  shows "toggleLike now u ident store =
    (let likeIndex = findIndex (\<lambda>l. like_user l = user_id u) (likes p);
         ls = (case likeIndex of Some i \<Rightarrow> splice1 i (likes p)
               | None \<Rightarrow> likes p @ [\<lparr>like_user = user_id u, like_createdAt = now\<rparr>])
     in (Inr \<lparr>res_likeCount = length ls, res_isLiked = (likeIndex = None)\<rparr>,
         map (\<lambda>q. if post_id q = post_id p then p\<lparr>likes := ls, updatedAt := now\<rparr> else q) store))"
  using assms
  by (simp add: toggleLike_def save_likes validate_doc_frame Let_def split: option.splits)

lemma findById_replaced:
  assumes "findById ident store = Some p" and "post_id p' = post_id p"
  shows "findById ident (map (\<lambda>q. if post_id q = post_id p then p' else q) store) = Some p'"
proof -
  from assms(1) have l: "lookup (castObjectId ident) store = Some p"
    by (simp add: findById_lookup)
  then have "post_id p = castObjectId ident" and "p \<in> set store"
    by (simp_all add: lookup_id lookup_mem)
  with lookup_replaced [OF \<open>p \<in> set store\<close> assms(2), of "castObjectId ident"] show ?thesis
    by (simp add: findById_lookup)
qed


section \<open>Viewing a post\<close>

text \<open>
  C8: a view that finds no post answers 404 and leaves the collection as it was. A view
  that finds the post \<open>p\<close>, by \<open>_id\<close> or by slug and for any requester, answers with
  \<open>p\<close> whose views are one more, and stores exactly that document under the \<open>_id\<close> of
  \<open>p\<close>; every other stored document is untouched. That is so when \<open>p\<close> passes the
  validators, as every document does that a handler wrote; on a document that does not,
  the save fails, the view is answered 400 and the collection is left as it was.
\<close>

theorem C8_getPost_increments_views:
  "(find (getPost_query requester identifier) store = None \<longrightarrow>
      getPost now requester identifier store = (Inl (Err 404 ''Post not found''), store)) \<and>
   (find (getPost_query requester identifier) store = Some p \<and> validate_doc p \<longrightarrow>
      fst (getPost now requester identifier store) = Inr (p\<lparr>views := views p + 1, updatedAt := now\<rparr>) \<and>
      (\<forall>pid. lookup pid (snd (getPost now requester identifier store)) =
         (if pid = post_id p then Some (p\<lparr>views := views p + 1, updatedAt := now\<rparr>)
          else lookup pid store))) \<and>
   (find (getPost_query requester identifier) store = Some p \<and> \<not> validate_doc p \<longrightarrow>
      getPost now requester identifier store = (Inl validation_error, store)) \<and>
   (store_ok store \<and> find (getPost_query requester identifier) store = Some p \<longrightarrow>
      validate_doc p)"
proof (intro conjI impI allI)
  assume "find (getPost_query requester identifier) store = None"
  then show "getPost now requester identifier store = (Inl (Err 404 ''Post not found''), store)"
    by (rule getPost_missing)
next
  assume a: "find (getPost_query requester identifier) store = Some p \<and> validate_doc p"
  then have found: "find (getPost_query requester identifier) store = Some p" and v: "validate_doc p"
    by simp_all
  show "fst (getPost now requester identifier store) =
      Inr (p\<lparr>views := views p + 1, updatedAt := now\<rparr>)"
    by (simp add: getPost_found [OF found v])
next
  fix pid
  assume a: "find (getPost_query requester identifier) store = Some p \<and> validate_doc p"
  then have found: "find (getPost_query requester identifier) store = Some p" and v: "validate_doc p"
    by simp_all
  from found have "p \<in> set store"
    by (rule find_mem)
  then have "lookup pid (map (\<lambda>q. if post_id q = post_id p
        then p\<lparr>views := views p + 1, updatedAt := now\<rparr> else q) store) =
      (if pid = post_id p then Some (p\<lparr>views := views p + 1, updatedAt := now\<rparr>)
       else lookup pid store)"
    by (rule lookup_replaced) simp
  then show "lookup pid (snd (getPost now requester identifier store)) =
      (if pid = post_id p then Some (p\<lparr>views := views p + 1, updatedAt := now\<rparr>)
       else lookup pid store)"
    by (simp add: getPost_found [OF found v])
next
  assume a: "find (getPost_query requester identifier) store = Some p \<and> \<not> validate_doc p"
  then show "getPost now requester identifier store = (Inl validation_error, store)"
    by (simp add: getPost_invalid)
next
  assume a: "store_ok store \<and> find (getPost_query requester identifier) store = Some p"
  then have "p \<in> set store"
    using find_mem [of "getPost_query requester identifier" store p] by simp
  with a show "validate_doc p"
    by (simp add: store_ok_def list_all_iff)
qed

text \<open>
  The views of the published example post: by slug, by the slug in capitals and padded,
  by \<open>_id\<close>, and a miss.
\<close>

theorem C8_getPost_increments_views_witness:
  "find (getPost_query None ''hello-world'') [draft_post, live_post] = Some live_post \<and>
   validate_doc live_post \<and> store_ok [draft_post, live_post] \<and>
   fst (getPost 9 None ''hello-world'' [draft_post, live_post]) =
     Inr (live_post\<lparr>views := 4, updatedAt := 9\<rparr>) \<and>
   lookup ''64b7f0a1c2d3e4f5a6b7c9a2'' (snd (getPost 9 None ''hello-world'' [draft_post, live_post])) =
     Some (live_post\<lparr>views := 4, updatedAt := 9\<rparr>) \<and>
   find (getPost_query None '' Hello-World '') [draft_post, live_post] = Some live_post \<and>
   fst (getPost 9 None '' Hello-World '' [draft_post, live_post]) =
     Inr (live_post\<lparr>views := 4, updatedAt := 9\<rparr>) \<and>
   find (getPost_query (Some alice) ''64b7f0a1c2d3e4f5a6b7c9a2'') [draft_post, live_post] =
     Some live_post \<and>
   fst (getPost 9 (Some alice) ''64b7f0a1c2d3e4f5a6b7c9a2'' [draft_post, live_post]) =
     Inr (live_post\<lparr>views := 4, updatedAt := 9\<rparr>) \<and>
   find (getPost_query None ''no-such-post'') [draft_post, live_post] = None \<and>
   getPost 9 None ''no-such-post'' [draft_post, live_post] =
     (Inl (Err 404 ''Post not found''), [draft_post, live_post]) \<and>
   find (getPost_query None ''hello-world'') [live_post\<lparr>title := ''Hi''\<rparr>] =
     Some (live_post\<lparr>title := ''Hi''\<rparr>) \<and>
   \<not> validate_doc (live_post\<lparr>title := ''Hi''\<rparr>) \<and>
   getPost 9 None ''hello-world'' [live_post\<lparr>title := ''Hi''\<rparr>] =
     (Inl validation_error, [live_post\<lparr>title := ''Hi''\<rparr>])"
proof -
  have h1: "find (getPost_query None ''hello-world'') [draft_post, live_post] = Some live_post"
    by code_simp
  have h2: "find (getPost_query (Some alice) ''64b7f0a1c2d3e4f5a6b7c9a2'') [draft_post, live_post] =
      Some live_post"
    by code_simp
  have h3: "find (getPost_query None ''no-such-post'') [draft_post, live_post] = None"
    by code_simp
  have h4: "find (getPost_query None '' Hello-World '') [draft_post, live_post] = Some live_post"
    by code_simp
  have h5: "find (getPost_query None ''hello-world'') [live_post\<lparr>title := ''Hi''\<rparr>] =
      Some (live_post\<lparr>title := ''Hi''\<rparr>)"
    by code_simp
  have h6: "validate_doc live_post" "\<not> validate_doc (live_post\<lparr>title := ''Hi''\<rparr>)"
      "store_ok [draft_post, live_post]"
    by code_simp+
  have v: "views live_post + 1 = 4" and i: "post_id live_post = ''64b7f0a1c2d3e4f5a6b7c9a2''"
    by (simp_all add: live_post_def)
  from C8_getPost_increments_views
         [of None "''hello-world''" "[draft_post, live_post]" 9 live_post]
       C8_getPost_increments_views
         [of None "'' Hello-World ''" "[draft_post, live_post]" 9 live_post]
       C8_getPost_increments_views
         [of "Some alice" "''64b7f0a1c2d3e4f5a6b7c9a2''" "[draft_post, live_post]" 9 live_post]
       C8_getPost_increments_views
         [of None "''no-such-post''" "[draft_post, live_post]" 9 live_post]
       C8_getPost_increments_views
         [of None "''hello-world''" "[live_post\<lparr>title := ''Hi''\<rparr>]" 9 "live_post\<lparr>title := ''Hi''\<rparr>"]
       h1 h2 h3 h4 h5 h6 v i
  show ?thesis
    by simp
qed

section \<open>What a request keeps of the stored documents\<close>

lemma update_fields_frame:
  "post_id (update_fields b p) = post_id p"
  "slug (update_fields b p) = slug p"
  "publishedAt (update_fields b p) = publishedAt p"
  "likes (update_fields b p) = likes p"
  "comments (update_fields b p) = comments p"
  "views (update_fields b p) = views p"
  "author (update_fields b p) = author p"
  by (simp_all add: update_fields_def Let_def split: option.splits)

lemma update_fields_status:
  "status (update_fields b p) = (case b_status b of None \<Rightarrow> status p | Some st \<Rightarrow> st)"
  by (simp add: update_fields_def Let_def split: option.splits)

lemma changed_paths_status: "isModified (changed_paths p p1) PStatus = (status p \<noteq> status p1)"
  by (simp add: changed_paths_def isModified_def)

lemma pre_save_frame:
  "post_id (pre_save now mods d) = post_id d"
  "likes (pre_save now mods d) = likes d"
  "comments (pre_save now mods d) = comments d"
  "views (pre_save now mods d) = views d"
  "status (pre_save now mods d) = status d"
  "author (pre_save now mods d) = author d"
  "title (pre_save now mods d) = title d"
  by (simp_all add: pre_save_def Let_def)

lemma pre_save_slug:
  "slug (pre_save now mods d) =
     (if isModified mods PTitle \<and> no_slug d then Some (slugify (title d)) else slug d)"
  by (auto simp: pre_save_def Let_def)

lemma isModified_Nil: "isModified [] pth = False"
  by (simp add: isModified_def)

lemma pre_save_publishedAt:
  "publishedAt (pre_save now mods d) =
     (if isModified mods PStatus \<and> status d = Published \<and> publishedAt d = None then Some now
      else publishedAt d)"
  by (simp add: pre_save_def Let_def)

lemma save_result:
  assumes "save now mods d store = Inr (d2, store')"
  shows "store' = map (\<lambda>q. if post_id q = post_id d then d2 else q) store"
    and "d2 = (if mods = [] then pre_save now mods d else (pre_save now mods d)\<lparr>updatedAt := now\<rparr>)"
    and "validate_doc d"
  using assms by (auto simp: save_def Let_def split: if_splits)

lemma save_frame:
  assumes "save now mods d store = Inr (d2, store')"
  shows "post_id d2 = post_id d" and "likes d2 = likes d" and "comments d2 = comments d"
    and "views d2 = views d" and "status d2 = status d" and "author d2 = author d"
    and "title d2 = title d"
    and "slug d2 = (if isModified mods PTitle \<and> no_slug d then Some (slugify (title d)) else slug d)"
    and "publishedAt d2 =
          (if isModified mods PStatus \<and> status d = Published \<and> publishedAt d = None
           then Some now else publishedAt d)"
  using save_result(2) [OF assms]
  by (auto simp: pre_save_frame pre_save_slug pre_save_publishedAt isModified_Nil)

lemma updatePost_invalid_id:
  "\<not> isValidObjectId ident \<Longrightarrow>
   updatePost cats now u ident b store = (Inl (Err 400 ''Invalid post ID''), store)"
  by (simp add: updatePost_def)

lemma updatePost_missing:
  "isValidObjectId ident \<Longrightarrow> findById ident store = None \<Longrightarrow>
   updatePost cats now u ident b store = (Inl (Err 404 ''Post not found''), store)"
  by (simp add: updatePost_def)

lemma updatePost_forbidden:
  "isValidObjectId ident \<Longrightarrow> findById ident store = Some p \<Longrightarrow>
   author p \<noteq> user_id u \<Longrightarrow> role u \<noteq> ''admin'' \<Longrightarrow>
   updatePost cats now u ident b store =
     (Inl (Err 403 ''Not authorized to update this post''), store)"
  by (simp add: updatePost_def)

lemma updatePost_error_keeps_store:
  "fst (updatePost cats now u ident b store) = Inl e \<Longrightarrow>
   snd (updatePost cats now u ident b store) = store"
  by (auto simp: updatePost_def Let_def split: if_splits option.splits sum.splits)

lemma updatePost_success:
  assumes "findById ident store = Some p"
    and "updatePost cats now u ident b store = (Inr p2, store')"
  shows "save now (changed_paths p (update_fields b p)) (update_fields b p) store = Inr (p2, store')"
  using assms by (auto simp: updatePost_def Let_def split: if_splits option.splits sum.splits)

lemma evolves_refl: "evolves p p"
  by (simp add: evolves_def)

lemma evolves_trans: "evolves p q \<Longrightarrow> evolves q r \<Longrightarrow> evolves p r"
  by (auto simp: evolves_def)

lemma rewritten_refl: "rewritten store store"
  by (simp add: rewritten_def)

lemma rewrittenI:
  "p \<in> set store \<Longrightarrow> evolves p p2 \<Longrightarrow> validate_doc p2 \<Longrightarrow>
   rewritten store (map (\<lambda>q. if post_id q = post_id p then p2 else q) store)"
  unfolding rewritten_def by (intro disjI2 bexI [of _ p] exI [of _ p2] conjI) simp_all

lemma save_evolves:
  assumes "save now mods d store = Inr (d2, store')"
  shows "evolves d d2"
  unfolding evolves_def using save_frame [OF assms]
  by (auto simp: no_slug_def one_like_each_def)

lemma validate_doc_pre_save: "validate_doc (pre_save now mods d) = validate_doc d"
  by (simp add: pre_save_def Let_def validate_doc_frame)

lemma save_valid:
  assumes "save now mods d store = Inr (d2, store')"
  shows "validate_doc d2"
  using save_result(2,3) [OF assms] by (simp add: validate_doc_pre_save validate_doc_frame)

lemma save_rewritten:
  assumes s: "save now mods d store = Inr (d2, store')"
    and p: "p \<in> set store" and e: "evolves p d"
  shows "rewritten store store'"
proof -
  have id: "post_id d = post_id p"
    using e by (simp add: evolves_def)
  have "evolves p d2"
    using e save_evolves [OF s] by (rule evolves_trans)
  then have "rewritten store (map (\<lambda>q. if post_id q = post_id p then d2 else q) store)"
    using p save_valid [OF s] by (intro rewrittenI)
  then show ?thesis
    using save_result(1) [OF s] id by simp
qed

lemma findById_mem: "findById ident store = Some p \<Longrightarrow> p \<in> set store"
  unfolding findById_def by (rule find_mem)

lemma getPost_rewritten: "rewritten store (snd (getPost now requester identifier store))"
proof (cases "find (getPost_query requester identifier) store")
  case None
  then show ?thesis
    by (simp add: getPost_missing rewritten_refl)
next
  case (Some p)
  show ?thesis
  proof (cases "validate_doc p")
    case False
    with Some show ?thesis
      by (simp add: getPost_invalid rewritten_refl)
  next
    case True
    have "evolves p (p\<lparr>views := views p + 1, updatedAt := now\<rparr>)"
      by (simp add: evolves_def one_like_each_def)
    moreover have "validate_doc (p\<lparr>views := views p + 1, updatedAt := now\<rparr>)"
      using True by (simp add: validate_doc_frame)
    ultimately have "rewritten store (map (\<lambda>q. if post_id q = post_id p
        then p\<lparr>views := views p + 1, updatedAt := now\<rparr> else q) store)"
      using find_mem [OF Some] by (intro rewrittenI)
    then show ?thesis
      by (simp add: getPost_found [OF Some True])
  qed
qed

lemma updatePost_rewritten: "rewritten store (snd (updatePost cats now u ident b store))"
proof (cases "fst (updatePost cats now u ident b store)")
  case (Inl e)
  then show ?thesis
    by (simp add: updatePost_error_keeps_store rewritten_refl)
next
  case (Inr p2)
  then have r: "updatePost cats now u ident b store = (Inr p2, snd (updatePost cats now u ident b store))"
    by (simp add: prod_eq_iff)
  then obtain p where f: "findById ident store = Some p"
    by (cases "findById ident store") (auto simp: updatePost_def split: if_splits)
  have "evolves p (update_fields b p)"
    by (simp add: evolves_def update_fields_frame one_like_each_def)
  with updatePost_success [OF f r] findById_mem [OF f] show ?thesis
    by (rule save_rewritten)
qed

lemma distinct_splice1: "distinct (map f xs) \<Longrightarrow> distinct (map f (splice1 i xs))"
proof -
  assume "distinct (map f xs)"
  then have "distinct (map f (take i xs @ drop i xs))"
    by simp
  then have "distinct (map f (take i xs)) \<and> distinct (map f (drop i xs)) \<and>
      set (map f (take i xs)) \<inter> set (map f (drop i xs)) = {}"
    by (simp only: map_append distinct_append)
  moreover have "set (drop (Suc i) xs) \<subseteq> set (drop i xs)"
    by (simp add: set_drop_subset_set_drop)
  moreover have "distinct (map f (drop (Suc i) xs))"
    using \<open>distinct (map f xs)\<close> by (simp add: distinct_drop drop_map [symmetric])
  ultimately show ?thesis
    unfolding splice1_def by (auto simp: distinct_append)
qed

lemma toggleLike_rewritten: "rewritten store (snd (toggleLike now u ident store))"
proof (cases "isValidObjectId ident")
  case False
  then show ?thesis
    by (simp add: toggleLike_def rewritten_refl)
next
  case True
  show ?thesis
  proof (cases "findById ident store")
    case None
    with True show ?thesis
      by (simp add: toggleLike_def rewritten_refl)
  next
    case (Some p)
    define ls where "ls = (case findIndex (\<lambda>l. like_user l = user_id u) (likes p) of
        Some i \<Rightarrow> splice1 i (likes p)
      | None \<Rightarrow> likes p @ [\<lparr>like_user = user_id u, like_createdAt = now\<rparr>])"
    have d: "distinct (map like_user (likes p)) \<Longrightarrow> distinct (map like_user ls)"
    proof (cases "findIndex (\<lambda>l. like_user l = user_id u) (likes p)")
      case None
      then have "user_id u \<notin> like_user ` set (likes p)"
        by (auto simp: findIndex_None list_ex_iff)
      moreover assume "distinct (map like_user (likes p))"
      ultimately show ?thesis
        using None by (simp add: ls_def)
    next
      case (Some i)
      moreover assume "distinct (map like_user (likes p))"
      ultimately show ?thesis
        by (simp add: ls_def distinct_splice1)
    qed
    then have e: "evolves p (p\<lparr>likes := ls, updatedAt := now\<rparr>)"
      by (simp add: evolves_def one_like_each_def)
    show ?thesis
    proof (cases "validate_doc p")
      case False
      then have "save now [PLikes] (p\<lparr>likes := ls\<rparr>) store = Inl validation_error"
        by (simp add: save_invalid validate_doc_frame)
      with True Some show ?thesis
        unfolding ls_def by (simp add: toggleLike_def Let_def rewritten_refl split: option.splits)
    next
      case valid: True
      then have "validate_doc (p\<lparr>likes := ls, updatedAt := now\<rparr>)"
        by (simp add: validate_doc_frame)
      with e findById_mem [OF Some]
      have "rewritten store (map (\<lambda>q. if post_id q = post_id p
          then p\<lparr>likes := ls, updatedAt := now\<rparr> else q) store)"
        by (intro rewrittenI)
      then show ?thesis
        unfolding ls_def by (simp add: toggleLike_found [OF True Some valid] Let_def)
    qed
  qed
qed

lemma addComment_rewritten: "rewritten store (snd (addComment now u ident c store))"
proof (cases "findById ident store")
  case None
  then show ?thesis
    by (simp add: addComment_def rewritten_refl split: option.splits)
next
  case (Some p)
  define p1 where "p1 = p\<lparr>comments := comments p @
      [\<lparr>comment_user = user_id u, comment_content = trim (case c of None \<Rightarrow> [] | Some x \<Rightarrow> x),
        comment_createdAt = now\<rparr>]\<rparr>"
  have e: "evolves p p1"
    by (simp add: evolves_def p1_def one_like_each_def)
  show ?thesis
  proof (cases "save now [PComments] p1 store")
    case (Inl err)
    with Some show ?thesis
      by (simp add: addComment_def rewritten_refl p1_def Let_def split: option.splits)
  next
    case (Inr res)
    obtain p2 store' where res: "res = (p2, store')"
      by (cases res)
    with Inr have "rewritten store store'"
      using findById_mem [OF Some] e by (intro save_rewritten [of now "[PComments]" p1 store p2 store' p]) simp_all
    with Some Inr res show ?thesis
      by (simp add: addComment_def rewritten_refl p1_def Let_def split: option.splits)
  qed
qed


lemma new_post_frame:
  "post_id (new_post new_id u b) = new_id" "likes (new_post new_id u b) = []"
  "slug (new_post new_id u b) = None" "publishedAt (new_post new_id u b) = None"
  "author (new_post new_id u b) = user_id u"
  by (simp_all add: new_post_def)

lemma save_new_result:
  assumes "save_new now mods d store = Inr (d2, store')"
  shows "store' = store @ [d2]" and "post_id d2 = post_id d" and "likes d2 = likes d"
    and "post_id d2 \<notin> post_id ` set store" and "validate_doc d"
    and "slug d2 = (if isModified mods PTitle \<and> no_slug d then Some (slugify (title d)) else slug d)"
    and "title d2 = title d" and "validate_doc d2"
  using assms
  by (auto simp: save_new_def Let_def list_ex_iff pre_save_frame pre_save_slug
      validate_doc_pre_save validate_doc_frame split: if_splits)

lemma createPost_effect:
  "snd (createPost cats now new_id u b store) = store \<or>
   (\<exists>d. post_id d \<notin> post_id ` set store \<and> one_like_each d \<and>
        snd (createPost cats now new_id u b store) = store @ [d])"
proof (cases "fst (createPost cats now new_id u b store)")
  case (Inl e)
  then have "snd (createPost cats now new_id u b store) = store"
    by (auto simp: createPost_def split: if_splits option.splits sum.splits)
  then show ?thesis by simp
next
  case (Inr p)
  then obtain store' where s: "save_new now new_paths (new_post new_id u b) store = Inr (p, store')"
      and r: "snd (createPost cats now new_id u b store) = store'"
    by (auto simp: createPost_def split: if_splits option.splits sum.splits)
  from save_new_result(1,3,4) [OF s] r
  have "post_id p \<notin> post_id ` set store \<and> one_like_each p \<and>
      snd (createPost cats now new_id u b store) = store @ [p]"
    by (simp add: one_like_each_def new_post_frame)
  then show ?thesis by blast
qed

lemma deletePost_effect:
  "snd (deletePost u ident store) = store \<or>
   snd (deletePost u ident store) = filter (\<lambda>q. post_id q \<noteq> castObjectId ident) store"
  by (simp add: deletePost_def split: option.splits)

lemma step_effect:
  "\<not> is_delete r \<Longrightarrow>
   rewritten store (step cats store (now, r)) \<or>
   (\<exists>d. post_id d \<notin> post_id ` set store \<and> one_like_each d \<and>
        step cats store (now, r) = store @ [d])"
proof (cases r)
  case (GetPosts requester q)
  then show ?thesis by (simp add: rewritten_refl)
next
  case (GetPost requester ident)
  then show ?thesis by (simp add: getPost_rewritten)
next
  case (CreatePost new_id u b)
  then show ?thesis
    using createPost_effect [of cats now new_id u b store] by (auto simp: rewritten_refl)
next
  case (UpdatePost u ident b)
  then show ?thesis by (simp add: updatePost_rewritten)
next
  case (DeletePost u ident)
  moreover assume "\<not> is_delete r"
  ultimately show ?thesis by simp
next
  case (ToggleLike u ident)
  then show ?thesis by (simp add: toggleLike_rewritten)
next
  case (AddComment u ident c)
  then show ?thesis by (simp add: addComment_rewritten)
qed

lemma lookup_unique:
  "ids_unique store \<Longrightarrow> p \<in> set store \<Longrightarrow> lookup (post_id p) store = Some p"
  by (induction store) (auto simp: lookup_def ids_unique_def)

lemma rewritten_ids: "rewritten store store' \<Longrightarrow> map post_id store' = map post_id store"
  by (auto simp: rewritten_def evolves_def)

lemma rewritten_lookup:
  assumes u: "ids_unique store" and r: "rewritten store store'"
    and l: "lookup pid store = Some q"
  shows "\<exists>q'. lookup pid store' = Some q' \<and> evolves q q'"
proof (cases "store' = store")
  case True
  with l show ?thesis
    by (intro exI [of _ q]) (simp add: evolves_refl)
next
  case False
  with r obtain p p2 where p: "p \<in> set store" and e: "evolves p p2"
      and s: "store' = map (\<lambda>q. if post_id q = post_id p then p2 else q) store"
    by (auto simp: rewritten_def)
  have id: "post_id p2 = post_id p"
    using e by (simp add: evolves_def)
  have lk: "lookup pid store' = (if pid = post_id p then Some p2 else lookup pid store)"
    unfolding s using p id by (rule lookup_replaced)
  show ?thesis
  proof (cases "pid = post_id p")
    case True
    with lookup_unique [OF u p] l have "q = p"
      by simp
    with lk True e show ?thesis
      by (intro exI [of _ p2]) simp
  next
    case False
    with lk l show ?thesis
      by (intro exI [of _ q]) (simp add: evolves_refl)
  qed
qed

lemma lookup_append_old:
  "lookup pid store = Some q \<Longrightarrow> lookup pid (store @ [d]) = Some q"
  by (induction store) (auto simp: lookup_def)

lemma step_lookup:
  assumes u: "ids_unique store" and l: "lookup pid store = Some q" and nd: "\<not> is_delete r"
  shows "\<exists>q'. lookup pid (step cats store (now, r)) = Some q' \<and> evolves q q'"
  using step_effect [OF nd, of store cats now]
proof
  assume "rewritten store (step cats store (now, r))"
  with u show ?thesis
    using l by (rule rewritten_lookup)
next
  assume "\<exists>d. post_id d \<notin> post_id ` set store \<and> one_like_each d \<and>
      step cats store (now, r) = store @ [d]"
  then obtain d where "step cats store (now, r) = store @ [d]"
    by blast
  with l show ?thesis
    by (intro exI [of _ q]) (simp add: lookup_append_old evolves_refl)
qed

lemma step_ids_unique:
  assumes u: "ids_unique store"
  shows "ids_unique (step cats store (now, r))"
proof (cases "is_delete r")
  case True
  then obtain usr ident where "r = DeletePost usr ident"
    by (cases r) simp_all
  with deletePost_effect [of usr ident store] u show ?thesis
    by (auto simp: ids_unique_def distinct_map_filter)
next
  case False
  from step_effect [OF False, of store cats now] show ?thesis
  proof
    assume "rewritten store (step cats store (now, r))"
    then show ?thesis
      using u by (simp add: ids_unique_def rewritten_ids)
  next
    assume "\<exists>d. post_id d \<notin> post_id ` set store \<and> one_like_each d \<and>
        step cats store (now, r) = store @ [d]"
    then show ?thesis
      using u by (auto simp: ids_unique_def)
  qed
qed

lemma rewritten_all:
  assumes "rewritten store store'" and "\<forall>p \<in> set store. one_like_each p"
  shows "\<forall>p \<in> set store'. one_like_each p"
  using assms by (auto simp: rewritten_def evolves_def)

lemma step_one_like_each:
  assumes a: "\<forall>p \<in> set store. one_like_each p"
  shows "\<forall>p \<in> set (step cats store (now, r)). one_like_each p"
proof (cases "is_delete r")
  case True
  then obtain usr ident where "r = DeletePost usr ident"
    by (cases r) simp_all
  with deletePost_effect [of usr ident store] a show ?thesis
    by auto
next
  case False
  from step_effect [OF False, of store cats now] show ?thesis
  proof
    assume "rewritten store (step cats store (now, r))"
    then show ?thesis
      using a by (rule rewritten_all)
  next
    assume "\<exists>d. post_id d \<notin> post_id ` set store \<and> one_like_each d \<and>
        step cats store (now, r) = store @ [d]"
    then show ?thesis
      using a by auto
  qed
qed

lemma run_one_like_each:
  "\<forall>p \<in> set store. one_like_each p \<Longrightarrow> \<forall>p \<in> set (run cats store reqs). one_like_each p"
proof (induction reqs arbitrary: store)
  case Nil
  then show ?case by (simp add: run_def)
next
  case (Cons nr reqs)
  obtain now r where nr: "nr = (now, r)"
    by (cases nr)
  have "\<forall>p \<in> set (step cats store (now, r)). one_like_each p"
    using Cons.prems by (rule step_one_like_each)
  then have "\<forall>p \<in> set (run cats (step cats store (now, r)) reqs). one_like_each p"
    by (rule Cons.IH)
  then show ?case
    by (simp add: run_def nr)
qed

lemma run_lookup:
  "ids_unique store \<Longrightarrow> lookup pid store = Some q \<Longrightarrow>
   list_all (\<lambda>nr. \<not> is_delete (snd nr)) reqs \<Longrightarrow>
   \<exists>q'. lookup pid (run cats store reqs) = Some q' \<and> evolves q q'"
proof (induction reqs arbitrary: store q)
  case Nil
  then show ?case
    by (intro exI [of _ q]) (simp add: run_def evolves_refl)
next
  case (Cons nr reqs)
  obtain now r where nr: "nr = (now, r)"
    by (cases nr)
  with Cons.prems have nd: "\<not> is_delete r" and rest: "list_all (\<lambda>nr. \<not> is_delete (snd nr)) reqs"
    by simp_all
  from step_lookup [OF Cons.prems(1,2) nd, of cats now]
  obtain q1 where l1: "lookup pid (step cats store (now, r)) = Some q1" and e1: "evolves q q1"
    by blast
  have "ids_unique (step cats store (now, r))"
    using Cons.prems(1) by (rule step_ids_unique)
  from Cons.IH [OF this l1 rest]
  obtain q2 where "lookup pid (run cats (step cats store (now, r)) reqs) = Some q2"
      and "evolves q1 q2"
    by blast
  with e1 have "lookup pid (run cats store (nr # reqs)) = Some q2 \<and> evolves q q2"
    by (auto simp: run_def nr intro: evolves_trans)
  then show ?case by blast
qed

lemma rewritten_valid:
  assumes "rewritten store store'" and "\<forall>p \<in> set store. validate_doc p"
  shows "\<forall>p \<in> set store'. validate_doc p"
  using assms by (auto simp: rewritten_def)

lemma createPost_valid:
  assumes a: "\<forall>p \<in> set store. validate_doc p"
  shows "\<forall>p \<in> set (snd (createPost cats now new_id u b store)). validate_doc p"
proof (cases "fst (createPost cats now new_id u b store)")
  case (Inl e)
  then have "snd (createPost cats now new_id u b store) = store"
    by (auto simp: createPost_def split: if_splits option.splits sum.splits)
  with a show ?thesis by simp
next
  case (Inr p)
  then obtain store' where s: "save_new now new_paths (new_post new_id u b) store = Inr (p, store')"
      and r: "snd (createPost cats now new_id u b store) = store'"
    by (auto simp: createPost_def split: if_splits option.splits sum.splits)
  from save_new_result(1,8) [OF s] r a show ?thesis
    by simp
qed

lemma step_valid:
  assumes a: "\<forall>p \<in> set store. validate_doc p"
  shows "\<forall>p \<in> set (step cats store (now, r)). validate_doc p"
proof (cases r)
  case (GetPosts requester q)
  with a show ?thesis by simp
next
  case (GetPost requester ident)
  with rewritten_valid [OF getPost_rewritten a] show ?thesis by simp
next
  case (CreatePost new_id u b)
  with createPost_valid [OF a] show ?thesis by simp
next
  case (UpdatePost u ident b)
  with rewritten_valid [OF updatePost_rewritten a] show ?thesis by simp
next
  case (DeletePost u ident)
  with deletePost_effect [of u ident store] a show ?thesis by auto
next
  case (ToggleLike u ident)
  with rewritten_valid [OF toggleLike_rewritten a] show ?thesis by simp
next
  case (AddComment u ident c)
  with rewritten_valid [OF addComment_rewritten a] show ?thesis by simp
qed

lemma run_valid:
  "\<forall>p \<in> set store. validate_doc p \<Longrightarrow> \<forall>p \<in> set (run cats store reqs). validate_doc p"
proof (induction reqs arbitrary: store)
  case Nil
  then show ?case by (simp add: run_def)
next
  case (Cons nr reqs)
  obtain now r where nr: "nr = (now, r)"
    by (cases nr)
  have "\<forall>p \<in> set (step cats store (now, r)). validate_doc p"
    using Cons.prems by (rule step_valid)
  then have "\<forall>p \<in> set (run cats (step cats store (now, r)) reqs). validate_doc p"
    by (rule Cons.IH)
  then show ?case
    by (simp add: run_def nr)
qed

lemma run_store_ok: "store_ok store \<Longrightarrow> store_ok (run cats store reqs)"
  using run_valid [of store cats reqs] run_one_like_each [of store cats reqs]
  by (simp add: store_ok_def list_all_iff)

lemma store_ok_mem: "store_ok store \<Longrightarrow> p \<in> set store \<Longrightarrow> validate_doc p \<and> one_like_each p"
  by (simp add: store_ok_def list_all_iff)

lemma deletePost_refused:
  "fst (deletePost u ident store) = Inl e \<Longrightarrow> snd (deletePost u ident store) = store"
  by (auto simp: deletePost_def split: if_splits option.splits)

lemma deletePost_done:
  "fst (deletePost u ident store) = Inr x \<Longrightarrow>
   snd (deletePost u ident store) = filter (\<lambda>q. post_id q \<noteq> castObjectId ident) store"
  by (auto simp: deletePost_def split: if_splits option.splits)

lemma lookup_filter_other:
  "pid \<noteq> i \<Longrightarrow> lookup pid (filter (\<lambda>q. post_id q \<noteq> i) store) = lookup pid store"
  by (induction store) (auto simp: lookup_def)

lemma step_lookup_kept:
  assumes u: "ids_unique store" and l: "lookup pid store = Some q"
    and nd: "\<not> deletes_post store pid r"
  shows "\<exists>q'. lookup pid (step cats store (now, r)) = Some q' \<and> evolves q q'"
proof (cases "is_delete r")
  case False
  with u l show ?thesis
    by (intro step_lookup)
next
  case True
  then obtain usr ident where r: "r = DeletePost usr ident"
    by (cases r) simp_all
  show ?thesis
  proof (cases "fst (deletePost usr ident store)")
    case (Inl e)
    with l r show ?thesis
      by (intro exI [of _ q]) (simp add: deletePost_refused evolves_refl)
  next
    case (Inr x)
    with nd r have "pid \<noteq> castObjectId ident"
      by auto
    with l r Inr show ?thesis
      by (intro exI [of _ q]) (simp add: deletePost_done lookup_filter_other evolves_refl)
  qed
qed

lemma run_lookup_kept:
  "ids_unique store \<Longrightarrow> lookup pid store = Some q \<Longrightarrow> \<not> deleted_along cats pid store reqs \<Longrightarrow>
   \<exists>q'. lookup pid (run cats store reqs) = Some q' \<and> evolves q q'"
proof (induction reqs arbitrary: store q)
  case Nil
  then show ?case
    by (intro exI [of _ q]) (simp add: run_def evolves_refl)
next
  case (Cons nr reqs)
  obtain now r where nr: "nr = (now, r)"
    by (cases nr)
  with Cons.prems have nd: "\<not> deletes_post store pid r"
    and rest: "\<not> deleted_along cats pid (step cats store (now, r)) reqs"
    by simp_all
  from step_lookup_kept [OF Cons.prems(1,2) nd, of cats now]
  obtain q1 where l1: "lookup pid (step cats store (now, r)) = Some q1" and e1: "evolves q q1"
    by blast
  have "ids_unique (step cats store (now, r))"
    using Cons.prems(1) by (rule step_ids_unique)
  from Cons.IH [OF this l1 rest]
  obtain q2 where "lookup pid (run cats (step cats store (now, r)) reqs) = Some q2"
      and "evolves q1 q2"
    by blast
  with e1 have "lookup pid (run cats store (nr # reqs)) = Some q2 \<and> evolves q q2"
    by (auto simp: run_def nr intro: evolves_trans)
  then show ?case by blast
qed

lemma filter_key_distinct:
  "distinct (map f xs) \<Longrightarrow> length (filter (\<lambda>x. f x = a) xs) \<le> Suc 0"
proof (induction xs)
  case Nil
  then show ?case by simp
next
  case (Cons x xs)
  show ?case
  proof (cases "f x = a")
    case True
    with Cons.prems have "a \<notin> f ` set xs"
      by simp
    then have "\<forall>y \<in> set xs. f y \<noteq> a"
      by blast
    then have "filter (\<lambda>x. f x = a) xs = []"
      by (simp add: filter_empty_conv)
    with True show ?thesis by simp
  next
    case False
    with Cons show ?thesis by simp
  qed
qed

lemma one_like_each_filter:
  "one_like_each p \<Longrightarrow> length (filter (\<lambda>l. like_user l = uid) (likes p)) \<le> Suc 0"
  unfolding one_like_each_def by (rule filter_key_distinct)

section \<open>Updating a post\<close>

text \<open>
  C7, for the handler updatePost: an identifier that is not of the form of an ObjectId
  is answered 400; an identifier of that form that resolves to no post is answered 404;
  a requester who is neither the author of the resolved post nor an admin is answered
  403; in each case the collection is left as it was.
\<close>

theorem C7_updatePost_failures:
  "(\<not> isValidObjectId ident \<longrightarrow>
      updatePost cats now u ident b store = (Inl (Err 400 ''Invalid post ID''), store)) \<and>
   (isValidObjectId ident \<and> findById ident store = None \<longrightarrow>
      updatePost cats now u ident b store = (Inl (Err 404 ''Post not found''), store)) \<and>
   (isValidObjectId ident \<and> findById ident store = Some p \<and>
    author p \<noteq> user_id u \<and> role u \<noteq> ''admin'' \<longrightarrow>
      updatePost cats now u ident b store =
        (Inl (Err 403 ''Not authorized to update this post''), store))"
  by (simp add: updatePost_invalid_id updatePost_missing updatePost_forbidden)

text \<open>An identifier that resolves to no post, and the second author on the draft of the first.\<close>

theorem C7_updatePost_failures_witness:
  "isValidObjectId ''64b7f0a1c2d3e4f5a6b7c9ff'' \<and>
   findById ''64b7f0a1c2d3e4f5a6b7c9ff'' [draft_post, live_post] = None \<and>
   updatePost [] 7 alice ''64b7f0a1c2d3e4f5a6b7c9ff'' no_fields [draft_post, live_post] =
     (Inl (Err 404 ''Post not found''), [draft_post, live_post]) \<and>
   isValidObjectId ''64b7f0a1c2d3e4f5a6b7c9a1'' \<and>
   findById ''64b7f0a1c2d3e4f5a6b7c9a1'' [draft_post, live_post] = Some draft_post \<and>
   author draft_post \<noteq> user_id bob \<and> role bob \<noteq> ''admin'' \<and>
   updatePost [] 7 bob ''64b7f0a1c2d3e4f5a6b7c9a1'' no_fields [draft_post, live_post] =
     (Inl (Err 403 ''Not authorized to update this post''), [draft_post, live_post])"
proof -
  have h1: "isValidObjectId ''64b7f0a1c2d3e4f5a6b7c9ff''"
    by code_simp
  have h2: "findById ''64b7f0a1c2d3e4f5a6b7c9ff'' [draft_post, live_post] = None"
    by code_simp
  have h3: "isValidObjectId ''64b7f0a1c2d3e4f5a6b7c9a1''"
    by code_simp
  have h4: "findById ''64b7f0a1c2d3e4f5a6b7c9a1'' [draft_post, live_post] = Some draft_post"
    by code_simp
  have h5: "author draft_post \<noteq> user_id bob" and h6: "role bob \<noteq> ''admin''"
    by (simp_all add: draft_post_def bob_def)
  from C7_updatePost_failures
         [of "''64b7f0a1c2d3e4f5a6b7c9ff''" "[]" 7 alice no_fields "[draft_post, live_post]" draft_post]
       C7_updatePost_failures
         [of "''64b7f0a1c2d3e4f5a6b7c9a1''" "[]" 7 bob no_fields "[draft_post, live_post]" draft_post]
       h1 h2 h3 h4 h5 h6
  show ?thesis
    by simp
qed

text \<open>
  C7 as stated, NotFound whenever the identifier does not resolve to a post, fails for
  an identifier that is not of the form of an ObjectId: it resolves to no post and the
  answer is 400.
\<close>

theorem C7_updatePost_malformed_id_counterexample:
  "findById ''abc'' [draft_post] = None \<and>
   updatePost [] 7 alice ''abc'' no_fields [draft_post] =
     (Inl (Err 400 ''Invalid post ID''), [draft_post])"
  by code_simp

text \<open>
  C3: an update that takes a post without \<open>publishedAt\<close> from another status to
  published stamps \<open>publishedAt\<close> with the instant of the update, in the answer and in
  the collection; a \<open>publishedAt\<close> once set is still the same after any update
  (whatever it does to the status, and whether it succeeds or not), and after any
  sequence of requests that deletes nothing.
\<close>

theorem C3_publishedAt_stamped_once:
  "(findById ident store = Some p \<and>
    updatePost cats now u ident b store = (Inr p2, store') \<and>
    publishedAt p = None \<and> status p \<noteq> Published \<and> b_status b = Some Published \<longrightarrow>
      publishedAt p2 = Some now \<and> findById ident store' = Some p2) \<and>
   (ids_unique store \<and> lookup pid store = Some q \<and> publishedAt q = Some t \<longrightarrow>
      map_option publishedAt (lookup pid (snd (updatePost cats now u ident b store))) =
        Some (Some t)) \<and>
   (ids_unique store \<and> lookup pid store = Some q \<and> publishedAt q = Some t \<and>
    list_all (\<lambda>nr. \<not> is_delete (snd nr)) reqs \<longrightarrow>
      map_option publishedAt (lookup pid (run cats store reqs)) = Some (Some t))"
proof (intro conjI impI)
  assume a: "findById ident store = Some p \<and>
    updatePost cats now u ident b store = (Inr p2, store') \<and>
    publishedAt p = None \<and> status p \<noteq> Published \<and> b_status b = Some Published"
  then have s: "save now (changed_paths p (update_fields b p)) (update_fields b p) store =
      Inr (p2, store')"
    using updatePost_success [of ident store p cats now u b p2 store'] by simp
  from a have "status (update_fields b p) = Published"
    by (simp add: update_fields_status)
  with a save_frame(9) [OF s] show "publishedAt p2 = Some now"
    by (simp add: changed_paths_status update_fields_frame)
  have "post_id p2 = post_id p"
    using save_frame(1) [OF s] by (simp add: update_fields_frame)
  with a findById_replaced [of ident store p p2] save_result(1) [OF s]
  show "findById ident store' = Some p2"
    by (simp add: update_fields_frame)
next
  assume a: "ids_unique store \<and> lookup pid store = Some q \<and> publishedAt q = Some t"
  then obtain q' where "lookup pid (step cats store (now, UpdatePost u ident b)) = Some q'"
      and "evolves q q'"
    using step_lookup [of store pid q "UpdatePost u ident b" cats now] by auto
  with a show "map_option publishedAt (lookup pid (snd (updatePost cats now u ident b store))) =
      Some (Some t)"
    by (simp add: evolves_def)
next
  assume a: "ids_unique store \<and> lookup pid store = Some q \<and> publishedAt q = Some t \<and>
    list_all (\<lambda>nr. \<not> is_delete (snd nr)) reqs"
  then obtain q' where "lookup pid (run cats store reqs) = Some q'" and "evolves q q'"
    using run_lookup [of store pid q reqs cats] by auto
  with a show "map_option publishedAt (lookup pid (run cats store reqs)) = Some (Some t)"
    by (simp add: evolves_def)
qed

text \<open>
  The draft is published at instant 7; the published post keeps its \<open>publishedAt\<close>
  through that update and through being unpublished and published again.
\<close>

theorem C3_publishedAt_stamped_once_witness:
  "findById ''64b7f0a1c2d3e4f5a6b7c9a1'' [draft_post, live_post] = Some draft_post \<and>
   updatePost [] 7 alice ''64b7f0a1c2d3e4f5a6b7c9a1'' (no_fields\<lparr>b_status := Some Published\<rparr>)
       [draft_post, live_post] =
     (Inr (draft_post\<lparr>status := Published, publishedAt := Some 7, updatedAt := 7\<rparr>),
      [draft_post\<lparr>status := Published, publishedAt := Some 7, updatedAt := 7\<rparr>, live_post]) \<and>
   publishedAt draft_post = None \<and> status draft_post \<noteq> Published \<and>
   ids_unique [draft_post, live_post] \<and>
   lookup ''64b7f0a1c2d3e4f5a6b7c9a2'' [draft_post, live_post] = Some live_post \<and>
   publishedAt live_post = Some 2 \<and>
   map_option publishedAt
     (lookup ''64b7f0a1c2d3e4f5a6b7c9a2''
        (snd (updatePost [] 7 alice ''64b7f0a1c2d3e4f5a6b7c9a1''
                (no_fields\<lparr>b_status := Some Published\<rparr>) [draft_post, live_post]))) =
     Some (Some 2) \<and>
   map_option publishedAt
     (lookup ''64b7f0a1c2d3e4f5a6b7c9a2''
        (run [] [draft_post, live_post]
           [(8, UpdatePost alice ''64b7f0a1c2d3e4f5a6b7c9a2'' (no_fields\<lparr>b_status := Some Draft\<rparr>)),
            (9, UpdatePost alice ''64b7f0a1c2d3e4f5a6b7c9a2''
                  (no_fields\<lparr>b_status := Some Published\<rparr>))])) =
     Some (Some 2)"
proof -
  have h1: "findById ''64b7f0a1c2d3e4f5a6b7c9a1'' [draft_post, live_post] = Some draft_post"
    by code_simp
  have h2: "updatePost [] 7 alice ''64b7f0a1c2d3e4f5a6b7c9a1'' (no_fields\<lparr>b_status := Some Published\<rparr>)
       [draft_post, live_post] =
     (Inr (draft_post\<lparr>status := Published, publishedAt := Some 7, updatedAt := 7\<rparr>),
      [draft_post\<lparr>status := Published, publishedAt := Some 7, updatedAt := 7\<rparr>, live_post])"
    by code_simp
  have h3: "publishedAt draft_post = None" "status draft_post \<noteq> Published"
      "b_status (no_fields\<lparr>b_status := Some Published\<rparr>) = Some Published"
    by (simp_all add: draft_post_def)
  have h4: "ids_unique [draft_post, live_post]"
    by code_simp
  have h5: "lookup ''64b7f0a1c2d3e4f5a6b7c9a2'' [draft_post, live_post] = Some live_post"
    by code_simp
  have h6: "publishedAt live_post = Some 2"
    by (simp add: live_post_def)
  have h7: "list_all (\<lambda>nr. \<not> is_delete (snd nr))
      [(8, UpdatePost alice ''64b7f0a1c2d3e4f5a6b7c9a2'' (no_fields\<lparr>b_status := Some Draft\<rparr>)),
       (9, UpdatePost alice ''64b7f0a1c2d3e4f5a6b7c9a2'' (no_fields\<lparr>b_status := Some Published\<rparr>))]"
    by simp
  from C3_publishedAt_stamped_once
         [of "''64b7f0a1c2d3e4f5a6b7c9a1''" "[draft_post, live_post]" draft_post "[]" 7 alice
             "no_fields\<lparr>b_status := Some Published\<rparr>"
             "draft_post\<lparr>status := Published, publishedAt := Some 7, updatedAt := 7\<rparr>"
             "[draft_post\<lparr>status := Published, publishedAt := Some 7, updatedAt := 7\<rparr>, live_post]"
             "''64b7f0a1c2d3e4f5a6b7c9a2''" live_post 2
             "[(8, UpdatePost alice ''64b7f0a1c2d3e4f5a6b7c9a2'' (no_fields\<lparr>b_status := Some Draft\<rparr>)),
               (9, UpdatePost alice ''64b7f0a1c2d3e4f5a6b7c9a2'' (no_fields\<lparr>b_status := Some Published\<rparr>))]"]
       h1 h2 h3 h4 h5 h6 h7
  show ?thesis
    by simp
qed

section \<open>Counts and likes over sequences of requests\<close>

text \<open>
  C5: starting from a collection in which no user has two like entries in a post (the
  empty collection, for one), after every sequence of requests each post has as
  \<open>likeCount\<close> the length of its likes and as \<open>commentCount\<close> the length of its
  comments (the post document has no field for either), and no user has two like
  entries in it.
\<close>

theorem C5_counts_and_one_like:
  "(\<forall>p \<in> set store. one_like_each p) \<longrightarrow>
   (\<forall>p \<in> set (run cats store reqs).
      likeCount p = length (likes p) \<and> commentCount p = length (comments p) \<and>
      one_like_each p \<and>
      (\<forall>uid. length (filter (\<lambda>l. like_user l = uid) (likes p)) \<le> 1))"
proof (intro impI ballI)
  fix p
  assume "\<forall>p \<in> set store. one_like_each p" and "p \<in> set (run cats store reqs)"
  then have "one_like_each p"
    using run_one_like_each [of store cats reqs] by simp
  then show "likeCount p = length (likes p) \<and> commentCount p = length (comments p) \<and>
      one_like_each p \<and>
      (\<forall>uid. length (filter (\<lambda>l. like_user l = uid) (likes p)) \<le> 1)"
    by (simp add: likeCount_def commentCount_def one_like_each_filter)
qed

text \<open>A post is created, liked three times by two users and commented once.\<close>

theorem C5_counts_and_one_like_witness:
  "list_all one_like_each [] \<and>
   map likeCount
     (run [] [] [(5, CreatePost ''64b7f0a1c2d3e4f5a6b7c9a3'' alice slug_body),
                 (6, ToggleLike bob ''64b7f0a1c2d3e4f5a6b7c9a3''),
                 (7, ToggleLike alice ''64b7f0a1c2d3e4f5a6b7c9a3''),
                 (8, ToggleLike bob ''64b7f0a1c2d3e4f5a6b7c9a3''),
                 (9, AddComment bob ''64b7f0a1c2d3e4f5a6b7c9a3'' (Some ''Nice''))]) = [1] \<and>
   map commentCount
     (run [] [] [(5, CreatePost ''64b7f0a1c2d3e4f5a6b7c9a3'' alice slug_body),
                 (6, ToggleLike bob ''64b7f0a1c2d3e4f5a6b7c9a3''),
                 (7, ToggleLike alice ''64b7f0a1c2d3e4f5a6b7c9a3''),
                 (8, ToggleLike bob ''64b7f0a1c2d3e4f5a6b7c9a3''),
                 (9, AddComment bob ''64b7f0a1c2d3e4f5a6b7c9a3'' (Some ''Nice''))]) = [1] \<and>
   list_all one_like_each
     (run [] [] [(5, CreatePost ''64b7f0a1c2d3e4f5a6b7c9a3'' alice slug_body),
                 (6, ToggleLike bob ''64b7f0a1c2d3e4f5a6b7c9a3''),
                 (7, ToggleLike alice ''64b7f0a1c2d3e4f5a6b7c9a3''),
                 (8, ToggleLike bob ''64b7f0a1c2d3e4f5a6b7c9a3''),
                 (9, AddComment bob ''64b7f0a1c2d3e4f5a6b7c9a3'' (Some ''Nice''))])"
proof -
  define reqs where "reqs =
    [(5::nat, CreatePost ''64b7f0a1c2d3e4f5a6b7c9a3'' alice slug_body),
     (6, ToggleLike bob ''64b7f0a1c2d3e4f5a6b7c9a3''),
     (7, ToggleLike alice ''64b7f0a1c2d3e4f5a6b7c9a3''),
     (8, ToggleLike bob ''64b7f0a1c2d3e4f5a6b7c9a3''),
     (9, AddComment bob ''64b7f0a1c2d3e4f5a6b7c9a3'' (Some ''Nice''))]"
  have e1: "map likeCount (run [] [] reqs) = [1]"
    unfolding reqs_def by code_simp
  have e2: "map commentCount (run [] [] reqs) = [1]"
    unfolding reqs_def by code_simp
  from C5_counts_and_one_like [of "[]" "[]" reqs]
  have "list_all one_like_each (run [] [] reqs)"
    by (simp add: list_all_iff)
  with e1 e2 show ?thesis
    unfolding reqs_def by simp
qed

section \<open>Likes\<close>

lemma toggleLike_twice:
  assumes valid: "isValidObjectId ident"
    and found: "findById ident store = Some p"
    and v: "validate_doc p"
    and one: "length (filter (\<lambda>l. like_user l = user_id u) (likes p)) \<le> 1"
    and first: "toggleLike now u ident store = (r1, store1)"
    and second: "toggleLike now' u ident store1 = (r2, store2)"
  shows "r1 = Inr \<lparr>res_likeCount = (if isLikedByUser p (user_id u) then likeCount p - 1
                                       else likeCount p + 1),
                    res_isLiked = (\<not> isLikedByUser p (user_id u))\<rparr> \<and>
         map_option likes (findById ident store1) =
           Some (if isLikedByUser p (user_id u)
                 then filter (\<lambda>l. like_user l \<noteq> user_id u) (likes p)
                 else likes p @ [\<lparr>like_user = user_id u, like_createdAt = now\<rparr>]) \<and>
         map_option (\<lambda>p1. (likeCount p1, isLikedByUser p1 (user_id u))) (findById ident store1) =
           Some (if isLikedByUser p (user_id u) then (likeCount p - 1, False)
                 else (likeCount p + 1, True)) \<and>
         r2 = Inr \<lparr>res_likeCount = likeCount p, res_isLiked = isLikedByUser p (user_id u)\<rparr> \<and>
         map_option (\<lambda>p2. (likeCount p2, isLikedByUser p2 (user_id u))) (findById ident store2) =
           Some (likeCount p, isLikedByUser p (user_id u))"
proof -
  define P where "P = (\<lambda>l::like. like_user l = user_id u)"
  define e where "e = \<lparr>like_user = user_id u, like_createdAt = now\<rparr>"
  define e' where "e' = \<lparr>like_user = user_id u, like_createdAt = now'\<rparr>"
  have Pe: "P e" "P e'"
    by (simp_all add: P_def e_def e'_def)
  have notP: "(\<lambda>l. like_user l \<noteq> user_id u) = (\<lambda>l. \<not> P l)"
    by (simp add: P_def)
  show ?thesis
  proof (cases "list_ex P (likes p)")
    case True
    then obtain i where i: "findIndex P (likes p) = Some i"
      using findIndex_None [of P "likes p"] by auto
    define ls1 where "ls1 = filter (\<lambda>l. \<not> P l) (likes p)"
    define p1 where "p1 = p\<lparr>likes := ls1, updatedAt := now\<rparr>"
    have v1: "validate_doc p1"
      using v by (simp add: p1_def validate_doc_frame)
    have sp: "splice1 i (likes p) = ls1"
      unfolding ls1_def using i one by (intro splice1_first) (simp_all add: P_def)
    have len: "Suc (length ls1) = length (likes p)"
      using splice1_length [OF i] sp by simp
    have t1: "toggleLike now u ident store =
        (Inr \<lparr>res_likeCount = length ls1, res_isLiked = False\<rparr>,
         map (\<lambda>q. if post_id q = post_id p then p1 else q) store)"
      using toggleLike_found [OF valid found v, of now u] i sp
      by (simp add: P_def [symmetric] p1_def Let_def)
    have f1: "findById ident store1 = Some p1"
      using first t1 findById_replaced [OF found, of p1] by (simp add: p1_def)
    have none1: "findIndex P (likes p1) = None"
      by (simp add: findIndex_None p1_def ls1_def list_ex_iff)
    define p2 where "p2 = p1\<lparr>likes := ls1 @ [e'], updatedAt := now'\<rparr>"
    have t2: "toggleLike now' u ident store1 =
        (Inr \<lparr>res_likeCount = length (ls1 @ [e']), res_isLiked = True\<rparr>,
         map (\<lambda>q. if post_id q = post_id p1 then p2 else q) store1)"
      using toggleLike_found [OF valid f1 v1, of now' u] none1
      by (simp add: P_def [symmetric] p2_def p1_def e'_def Let_def)
    have f2: "findById ident store2 = Some p2"
      using second t2 findById_replaced [OF f1, of p2] by (simp add: p2_def)
    have liked: "isLikedByUser p (user_id u)"
      using True by (simp add: isLikedByUser_def P_def)
    have nl1: "\<not> isLikedByUser p1 (user_id u)"
      by (simp add: isLikedByUser_def p1_def ls1_def P_def list_ex_iff)
    have l2: "isLikedByUser p2 (user_id u)"
      using Pe by (simp add: isLikedByUser_def p2_def P_def list_ex_iff)
    have c1: "likeCount p1 = likeCount p - 1" and c2: "likeCount p2 = likeCount p"
      using len by (simp_all add: likeCount_def p1_def p2_def)
    have len1: "length ls1 = length (likes p) - 1"
      using len by simp
    have "r1 = Inr \<lparr>res_likeCount = likeCount p - 1, res_isLiked = False\<rparr>"
      using first t1 by (auto simp: likeCount_def len1)
    moreover have "likes p1 = filter (\<lambda>l. like_user l \<noteq> user_id u) (likes p)"
      by (simp add: p1_def ls1_def notP)
    moreover have "r2 = Inr \<lparr>res_likeCount = likeCount p, res_isLiked = True\<rparr>"
      using second t2 len by (auto simp: likeCount_def)
    ultimately show ?thesis
      using liked nl1 l2 c1 c2 by (simp add: f1 f2)
  next
    case False
    then have none: "findIndex P (likes p) = None"
      by (simp add: findIndex_None)
    define p1 where "p1 = p\<lparr>likes := likes p @ [e], updatedAt := now\<rparr>"
    have v1: "validate_doc p1"
      using v by (simp add: p1_def validate_doc_frame)
    have t1: "toggleLike now u ident store =
        (Inr \<lparr>res_likeCount = length (likes p @ [e]), res_isLiked = True\<rparr>,
         map (\<lambda>q. if post_id q = post_id p then p1 else q) store)"
      using toggleLike_found [OF valid found v, of now u] none
      by (simp add: P_def [symmetric] p1_def e_def Let_def)
    have f1: "findById ident store1 = Some p1"
      using first t1 findById_replaced [OF found, of p1] by (simp add: p1_def)
    have idx: "findIndex P (likes p1) = Some (length (likes p))"
      using findIndex_append_new [OF False Pe(1)] by (simp add: p1_def)
    define p2 where "p2 = p1\<lparr>likes := likes p, updatedAt := now'\<rparr>"
    have t2: "toggleLike now' u ident store1 =
        (Inr \<lparr>res_likeCount = length (likes p), res_isLiked = False\<rparr>,
         map (\<lambda>q. if post_id q = post_id p1 then p2 else q) store1)"
      using toggleLike_found [OF valid f1 v1, of now' u] idx
      by (simp add: P_def [symmetric] p2_def p1_def splice1_append_new Let_def)
    have f2: "findById ident store2 = Some p2"
      using second t2 findById_replaced [OF f1, of p2] by (simp add: p2_def)
    have nliked: "\<not> isLikedByUser p (user_id u)"
      using False by (simp add: isLikedByUser_def P_def)
    have l1: "isLikedByUser p1 (user_id u)"
      using Pe by (simp add: isLikedByUser_def p1_def P_def list_ex_iff)
    have nl2: "\<not> isLikedByUser p2 (user_id u)"
      using False by (simp add: isLikedByUser_def p2_def P_def)
    have c1: "likeCount p1 = likeCount p + 1" and c2: "likeCount p2 = likeCount p"
      by (simp_all add: likeCount_def p1_def p2_def)
    have "r1 = Inr \<lparr>res_likeCount = likeCount p + 1, res_isLiked = True\<rparr>"
      using first t1 by (auto simp: likeCount_def)
    moreover have "likes p1 = likes p @ [\<lparr>like_user = user_id u, like_createdAt = now\<rparr>]"
      by (simp add: p1_def e_def)
    moreover have "r2 = Inr \<lparr>res_likeCount = likeCount p, res_isLiked = False\<rparr>"
      using second t2 by (auto simp: likeCount_def)
    ultimately show ?thesis
      using nliked l1 nl2 c1 c2 by (simp add: f1 f2)
  qed
qed

text \<open>
  C2: in every collection the handlers reach, from a collection they keep (the empty
  one, for one) by any sequence of requests, and for every post found there: toggleLike
  removes the requester's like entry if there is one (the answer says not liked) and
  appends one entry otherwise (the answer says liked); the answer carries the new number
  of likes and the new liked state of the requester; a second toggleLike by the same
  user brings the number of likes and the liked state back to what they were. No user
  has two like entries in such a collection, which is what the toggle rests on.
\<close>

theorem C2_toggleLike_twice:
  assumes ok: "store_ok store0"
    and valid: "isValidObjectId ident"
    and found: "findById ident (run cats store0 reqs) = Some p"
    and first: "toggleLike now u ident (run cats store0 reqs) = (r1, store1)"
    and second: "toggleLike now' u ident store1 = (r2, store2)"
  shows "r1 = Inr \<lparr>res_likeCount = (if isLikedByUser p (user_id u) then likeCount p - 1
                                       else likeCount p + 1),
                    res_isLiked = (\<not> isLikedByUser p (user_id u))\<rparr> \<and>
         map_option likes (findById ident store1) =
           Some (if isLikedByUser p (user_id u)
                 then filter (\<lambda>l. like_user l \<noteq> user_id u) (likes p)
                 else likes p @ [\<lparr>like_user = user_id u, like_createdAt = now\<rparr>]) \<and>
         map_option (\<lambda>p1. (likeCount p1, isLikedByUser p1 (user_id u))) (findById ident store1) =
           Some (if isLikedByUser p (user_id u) then (likeCount p - 1, False)
                 else (likeCount p + 1, True)) \<and>
         r2 = Inr \<lparr>res_likeCount = likeCount p, res_isLiked = isLikedByUser p (user_id u)\<rparr> \<and>
         map_option (\<lambda>p2. (likeCount p2, isLikedByUser p2 (user_id u))) (findById ident store2) =
           Some (likeCount p, isLikedByUser p (user_id u)) \<and>
         one_like_each p"
proof -
  have "p \<in> set (run cats store0 reqs)"
    using found by (rule findById_mem)
  with run_store_ok [OF ok, of cats reqs] have v: "validate_doc p" and o: "one_like_each p"
    by (simp_all add: store_ok_mem)
  from o have "length (filter (\<lambda>l. like_user l = user_id u) (likes p)) \<le> 1"
    using one_like_each_filter [of p "user_id u"] by simp
  from toggleLike_twice [OF valid found v this first second] o show ?thesis
    by simp
qed

text \<open>
  A post is created and liked by its author; the second author, who has no like there,
  toggles twice, and so does the first, who has one.
\<close>

theorem C2_toggleLike_twice_witness:
  "store_ok [] \<and> isValidObjectId ''64b7f0a1c2d3e4f5a6b7c9a3'' \<and>
   findById ''64b7f0a1c2d3e4f5a6b7c9a3''
     (run [] [] [(5, CreatePost ''64b7f0a1c2d3e4f5a6b7c9a3'' alice slug_body),
                 (6, ToggleLike alice ''64b7f0a1c2d3e4f5a6b7c9a3'')]) =
     Some (created_post\<lparr>likes := [\<lparr>like_user = ''64b7f0a1c2d3e4f5a6b7c801'', like_createdAt = 6\<rparr>],
                        updatedAt := 6\<rparr>) \<and>
   fst (toggleLike 7 bob ''64b7f0a1c2d3e4f5a6b7c9a3''
          (run [] [] [(5, CreatePost ''64b7f0a1c2d3e4f5a6b7c9a3'' alice slug_body),
                      (6, ToggleLike alice ''64b7f0a1c2d3e4f5a6b7c9a3'')])) =
     Inr \<lparr>res_likeCount = 2, res_isLiked = True\<rparr> \<and>
   fst (toggleLike 8 bob ''64b7f0a1c2d3e4f5a6b7c9a3''
          (snd (toggleLike 7 bob ''64b7f0a1c2d3e4f5a6b7c9a3''
                  (run [] [] [(5, CreatePost ''64b7f0a1c2d3e4f5a6b7c9a3'' alice slug_body),
                              (6, ToggleLike alice ''64b7f0a1c2d3e4f5a6b7c9a3'')])))) =
     Inr \<lparr>res_likeCount = 1, res_isLiked = False\<rparr> \<and>
   fst (toggleLike 7 alice ''64b7f0a1c2d3e4f5a6b7c9a3''
          (run [] [] [(5, CreatePost ''64b7f0a1c2d3e4f5a6b7c9a3'' alice slug_body),
                      (6, ToggleLike alice ''64b7f0a1c2d3e4f5a6b7c9a3'')])) =
     Inr \<lparr>res_likeCount = 0, res_isLiked = False\<rparr> \<and>
   fst (toggleLike 8 alice ''64b7f0a1c2d3e4f5a6b7c9a3''
          (snd (toggleLike 7 alice ''64b7f0a1c2d3e4f5a6b7c9a3''
                  (run [] [] [(5, CreatePost ''64b7f0a1c2d3e4f5a6b7c9a3'' alice slug_body),
                              (6, ToggleLike alice ''64b7f0a1c2d3e4f5a6b7c9a3'')])))) =
     Inr \<lparr>res_likeCount = 1, res_isLiked = True\<rparr>"
proof -
  define reqs where "reqs =
    [(5::nat, CreatePost ''64b7f0a1c2d3e4f5a6b7c9a3'' alice slug_body),
     (6, ToggleLike alice ''64b7f0a1c2d3e4f5a6b7c9a3'')]"
  define p where "p =
    created_post\<lparr>likes := [\<lparr>like_user = ''64b7f0a1c2d3e4f5a6b7c801'', like_createdAt = 6\<rparr>],
                 updatedAt := 6\<rparr>"
  have h0: "store_ok []"
    by (simp add: store_ok_def)
  have h1: "isValidObjectId ''64b7f0a1c2d3e4f5a6b7c9a3''"
    by code_simp
  have h2: "findById ''64b7f0a1c2d3e4f5a6b7c9a3'' (run [] [] reqs) = Some p"
    unfolding reqs_def p_def by code_simp
  have b: "\<not> isLikedByUser p (user_id bob)" and a: "isLikedByUser p (user_id alice)"
    and c: "likeCount p = 1"
    unfolding p_def by code_simp+
  from C2_toggleLike_twice [OF h0 h1 h2 surjective_pairing surjective_pairing,
            where now = 7 and now' = 8 and u = bob]
       C2_toggleLike_twice [OF h0 h1 h2 surjective_pairing surjective_pairing,
            where now = 7 and now' = 8 and u = alice]
       h0 h1 h2 a b c
  show ?thesis
    unfolding reqs_def p_def by simp
qed

section \<open>The slug\<close>

lemma replace_runs_chars:
  "list_all (\<lambda>c. is_slug_char c \<or> c = CHR ''-'') (replace_runs s)"
  by (induction s rule: replace_runs.induct) auto

lemma strip_hyphens_subset: "set (strip_hyphens s) \<subseteq> set s"
  by (auto simp: strip_hyphens_def Let_def split: list.splits if_splits dest: in_set_butlastD)

lemma slugify_chars: "list_all (\<lambda>c. is_slug_char c \<or> c = CHR ''-'') (slugify t)"
  using replace_runs_chars [of "toLowerCase t"] strip_hyphens_subset [of "replace_runs (toLowerCase t)"]
  by (auto simp: slugify_def list_all_iff)

lemma lookup_append_new:
  "pid \<notin> post_id ` set store \<Longrightarrow> post_id d = pid \<Longrightarrow> lookup pid (store @ [d]) = Some d"
  by (induction store) (auto simp: lookup_def)

lemma createPost_success:
  assumes "createPost cats now new_id u b store = (Inr p, store')"
  shows "save_new now new_paths (new_post new_id u b) store = Inr (p, store')"
  using assms by (auto simp: createPost_def split: if_splits option.splits sum.splits)

text \<open>
  C4: the post that createPost stores has as slug the slug of its (trimmed) title, made
  of lower-case letters, digits and hyphens only; a slug that is a non-empty string is
  still the same after any request that does not delete the post (an update of the
  title, a deletion that is refused and the deletion of another post included), and
  after any sequence of requests none of which deletes the post.
\<close>

theorem C4_slug_set_once:
  "(createPost cats now new_id u b store = (Inr p, store') \<longrightarrow>
      slug p = Some (slugify (title p)) \<and>
      title p = trim (case b_title b of None \<Rightarrow> [] | Some t \<Rightarrow> t) \<and>
      list_all (\<lambda>c. is_slug_char c \<or> c = CHR ''-'') (slugify (title p)) \<and>
      lookup new_id store' = Some p) \<and>
   (ids_unique store \<and> lookup pid store = Some q \<and> slug q = Some s \<and> s \<noteq> [] \<and>
    \<not> deletes_post store pid r \<longrightarrow>
      map_option slug (lookup pid (step cats store (now, r))) = Some (Some s)) \<and>
   (ids_unique store \<and> lookup pid store = Some q \<and> slug q = Some s \<and> s \<noteq> [] \<and>
    \<not> deleted_along cats pid store reqs \<longrightarrow>
      map_option slug (lookup pid (run cats store reqs)) = Some (Some s))"
proof (intro conjI impI)
  assume a: "createPost cats now new_id u b store = (Inr p, store')"
  note s = createPost_success [OF a]
  have m: "isModified new_paths PTitle" and n: "no_slug (new_post new_id u b)"
    by (simp_all add: isModified_def new_paths_def no_slug_def new_post_frame truthy_def)
  have t: "title p = title (new_post new_id u b)"
    using save_new_result(7) [OF s] .
  show "slug p = Some (slugify (title p))"
    using save_new_result(6) [OF s] m n t by simp
  show "title p = trim (case b_title b of None \<Rightarrow> [] | Some t \<Rightarrow> t)"
    using t by (simp add: new_post_def)
  show "list_all (\<lambda>c. is_slug_char c \<or> c = CHR ''-'') (slugify (title p))"
    by (rule slugify_chars)
  show "lookup new_id store' = Some p"
    using save_new_result(1,2,4) [OF s] by (simp add: lookup_append_new new_post_frame)
next
  assume a: "ids_unique store \<and> lookup pid store = Some q \<and> slug q = Some s \<and> s \<noteq> [] \<and>
    \<not> deletes_post store pid r"
  then obtain q' where "lookup pid (step cats store (now, r)) = Some q'" and "evolves q q'"
    using step_lookup_kept [of store pid q r cats now] by auto
  with a show "map_option slug (lookup pid (step cats store (now, r))) = Some (Some s)"
    by (simp add: evolves_def truthy_def)
next
  assume a: "ids_unique store \<and> lookup pid store = Some q \<and> slug q = Some s \<and> s \<noteq> [] \<and>
    \<not> deleted_along cats pid store reqs"
  then obtain q' where "lookup pid (run cats store reqs) = Some q'" and "evolves q q'"
    using run_lookup_kept [of store pid q cats reqs] by auto
  with a show "map_option slug (lookup pid (run cats store reqs)) = Some (Some s)"
    by (simp add: evolves_def truthy_def)
qed

text \<open>
  The title of the model test; the slug stays through a change of the title, through a
  deletion that is refused, and through a sequence of a change of the title, a view, a
  like and the refused deletion.
\<close>

theorem C4_slug_set_once_witness:
  "createPost [] 5 ''64b7f0a1c2d3e4f5a6b7c9a3'' alice slug_body [] =
     (Inr created_post, [created_post]) \<and>
   slug created_post = Some ''this-is-a-test-post-title'' \<and>
   ids_unique [created_post] \<and>
   lookup ''64b7f0a1c2d3e4f5a6b7c9a3'' [created_post] = Some created_post \<and>
   map_option title
     (lookup ''64b7f0a1c2d3e4f5a6b7c9a3''
        (step [] [created_post]
           (6, UpdatePost alice ''64b7f0a1c2d3e4f5a6b7c9a3''
                 (no_fields\<lparr>b_title := Some ''A new title for it''\<rparr>)))) =
     Some ''A new title for it'' \<and>
   map_option slug
     (lookup ''64b7f0a1c2d3e4f5a6b7c9a3''
        (step [] [created_post]
           (6, UpdatePost alice ''64b7f0a1c2d3e4f5a6b7c9a3''
                 (no_fields\<lparr>b_title := Some ''A new title for it''\<rparr>)))) =
     Some (Some ''this-is-a-test-post-title'') \<and>
   deletePost bob ''64b7f0a1c2d3e4f5a6b7c9a3'' [created_post] =
     (Inl (Err 403 ''Not authorized to delete this post''), [created_post]) \<and>
   map_option slug
     (lookup ''64b7f0a1c2d3e4f5a6b7c9a3''
        (step [] [created_post] (6, DeletePost bob ''64b7f0a1c2d3e4f5a6b7c9a3''))) =
     Some (Some ''this-is-a-test-post-title'') \<and>
   map_option slug
     (lookup ''64b7f0a1c2d3e4f5a6b7c9a3''
        (run [] [created_post]
           [(6, UpdatePost alice ''64b7f0a1c2d3e4f5a6b7c9a3''
                  (no_fields\<lparr>b_title := Some ''A new title for it''\<rparr>)),
            (7, GetPost None ''this-is-a-test-post-title''),
            (8, ToggleLike bob ''64b7f0a1c2d3e4f5a6b7c9a3''),
            (9, DeletePost bob ''64b7f0a1c2d3e4f5a6b7c9a3'')])) =
     Some (Some ''this-is-a-test-post-title'')"
proof -
  define reqs where "reqs =
    [(6::nat, UpdatePost alice ''64b7f0a1c2d3e4f5a6b7c9a3''
            (no_fields\<lparr>b_title := Some ''A new title for it''\<rparr>)),
     (7, GetPost None ''this-is-a-test-post-title''),
     (8, ToggleLike bob ''64b7f0a1c2d3e4f5a6b7c9a3''),
     (9, DeletePost bob ''64b7f0a1c2d3e4f5a6b7c9a3'')]"
  have h1: "createPost [] 5 ''64b7f0a1c2d3e4f5a6b7c9a3'' alice slug_body [] =
      (Inr created_post, [created_post])"
    by code_simp
  have h2: "ids_unique [created_post]"
    by code_simp
  have h3: "lookup ''64b7f0a1c2d3e4f5a6b7c9a3'' [created_post] = Some created_post"
    by code_simp
  have h4: "slug created_post = Some ''this-is-a-test-post-title''"
      "''this-is-a-test-post-title'' \<noteq> []"
    by (simp_all add: created_post_def)
  have h5: "\<not> deletes_post [created_post] ''64b7f0a1c2d3e4f5a6b7c9a3''
      (UpdatePost alice ''64b7f0a1c2d3e4f5a6b7c9a3''
         (no_fields\<lparr>b_title := Some ''A new title for it''\<rparr>))"
    by simp
  have h6: "\<not> deletes_post [created_post] ''64b7f0a1c2d3e4f5a6b7c9a3''
      (DeletePost bob ''64b7f0a1c2d3e4f5a6b7c9a3'')"
    by code_simp
  have h7: "\<not> deleted_along [] ''64b7f0a1c2d3e4f5a6b7c9a3'' [created_post] reqs"
    unfolding reqs_def by code_simp
  have h8: "map_option title
     (lookup ''64b7f0a1c2d3e4f5a6b7c9a3''
        (step [] [created_post]
           (6, UpdatePost alice ''64b7f0a1c2d3e4f5a6b7c9a3''
                 (no_fields\<lparr>b_title := Some ''A new title for it''\<rparr>)))) =
     Some ''A new title for it''"
    by code_simp
  have h9: "deletePost bob ''64b7f0a1c2d3e4f5a6b7c9a3'' [created_post] =
      (Inl (Err 403 ''Not authorized to delete this post''), [created_post])"
    by code_simp
  from C4_slug_set_once
         [of "[]" 5 "''64b7f0a1c2d3e4f5a6b7c9a3''" alice slug_body "[]" created_post
             "[created_post]" "''64b7f0a1c2d3e4f5a6b7c9a3''" created_post
             "''this-is-a-test-post-title''"
             "UpdatePost alice ''64b7f0a1c2d3e4f5a6b7c9a3''
                (no_fields\<lparr>b_title := Some ''A new title for it''\<rparr>)" "[]"]
       C4_slug_set_once
         [of "[]" 6 "''64b7f0a1c2d3e4f5a6b7c9a3''" alice slug_body "[created_post]" created_post
             "[created_post]" "''64b7f0a1c2d3e4f5a6b7c9a3''" created_post
             "''this-is-a-test-post-title''"
             "UpdatePost alice ''64b7f0a1c2d3e4f5a6b7c9a3''
                (no_fields\<lparr>b_title := Some ''A new title for it''\<rparr>)" reqs]
       C4_slug_set_once
         [of "[]" 6 "''64b7f0a1c2d3e4f5a6b7c9a3''" alice slug_body "[created_post]" created_post
             "[created_post]" "''64b7f0a1c2d3e4f5a6b7c9a3''" created_post
             "''this-is-a-test-post-title''"
             "DeletePost bob ''64b7f0a1c2d3e4f5a6b7c9a3''" reqs]
       h1 h2 h3 h4 h5 h6 h7 h8 h9
  show ?thesis
    unfolding reqs_def by simp
qed

text \<open>
  C4 as stated, never regenerated once set, fails for a title without a letter or digit:
  the first save sets the slug to the empty string, which the hook takes for no slug, and
  the next update of the title generates the slug again.
\<close>

theorem C4_empty_slug_regenerated_counterexample:
  "map_option slug
     (lookup ''64b7f0a1c2d3e4f5a6b7c9a4''
        (snd (createPost [] 5 ''64b7f0a1c2d3e4f5a6b7c9a4'' alice
                (no_fields\<lparr>b_title := Some ''!!!!!'', b_content := Some ''0123456789''\<rparr>) []))) =
     Some (Some []) \<and>
   map_option slug
     (lookup ''64b7f0a1c2d3e4f5a6b7c9a4''
        (snd (updatePost [] 6 alice ''64b7f0a1c2d3e4f5a6b7c9a4''
                (no_fields\<lparr>b_title := Some ''Hello again''\<rparr>)
                (snd (createPost [] 5 ''64b7f0a1c2d3e4f5a6b7c9a4'' alice
                        (no_fields\<lparr>b_title := Some ''!!!!!'', b_content := Some ''0123456789''\<rparr>)
                        []))))) =
     Some (Some ''hello-again'')"
  by code_simp

section \<open>Listing posts: pagination\<close>

lemma insort_by_length: "length (insort_by le x xs) = Suc (length xs)"
  by (induction xs) auto

lemma insort_by_set: "set (insort_by le x xs) = insert x (set xs)"
  by (induction xs) auto

lemma sort_by_length: "length (sort_by le xs) = length xs"
  by (induction xs) (auto simp: sort_by_def insort_by_length)

lemma sort_by_set: "set (sort_by le xs) = set xs"
  by (induction xs) (auto simp: sort_by_def insort_by_set)

lemma page_subset: "set (take n (drop m (sort_by le (filter P xs)))) \<subseteq> {x \<in> set xs. P x}"
proof -
  have "set (take n (drop m (sort_by le (filter P xs)))) \<subseteq> set (sort_by le (filter P xs))"
    by (meson set_drop_subset set_take_subset subset_trans)
  then show ?thesis
    by (auto simp: sort_by_set)
qed



lemma build_query_status:
  "build_query regex requester q = Inr f \<Longrightarrow>
   f_status f = (case q_status q of Some s \<Rightarrow> Some s
                 | None \<Rightarrow> if not_admin requester then Some Published else None)"
  by (auto simp: build_query_def Let_def split: option.splits if_splits sum.splits)

lemma build_query_plain:
  "q_category q = None \<Longrightarrow> q_author q = None \<Longrightarrow> q_search q = None \<Longrightarrow>
   build_query regex requester q =
     Inr \<lparr>f_status = (case q_status q of Some s \<Rightarrow> Some s
                       | None \<Rightarrow> if not_admin requester then Some Published else None),
          f_category = None, f_author = None, f_search = None\<rparr>"
  by (simp add: build_query_def Let_def)

lemma getPosts_result:
  assumes "build_query regex requester q = Inr f"
    and "(case q_page q of None \<Rightarrow> 1 | Some n \<Rightarrow> n) \<le> max_safe_integer"
  shows "getPosts regex big_page requester q store =
    Inr \<lparr>posts = take (nat (case q_limit q of None \<Rightarrow> 10 | Some n \<Rightarrow> n))
                   (drop (nat (((case q_page q of None \<Rightarrow> 1 | Some n \<Rightarrow> n) - 1) *
                               (case q_limit q of None \<Rightarrow> 10 | Some n \<Rightarrow> n)))
                      (sort_by (post_le (case q_sortBy q of None \<Rightarrow> SortCreatedAt | Some fl \<Rightarrow> fl)
                                        (case q_sortOrder q of None \<Rightarrow> Desc | Some ord \<Rightarrow> ord))
                         (filter (matches f) store))),
         pagination =
           \<lparr>currentPage = (case q_page q of None \<Rightarrow> 1 | Some n \<Rightarrow> n),
            totalPages = - ((- int (length (filter (matches f) store))) div
                            (case q_limit q of None \<Rightarrow> 10 | Some n \<Rightarrow> n)),
            totalPosts = int (length (filter (matches f) store)),
            hasNextPage = ((case q_page q of None \<Rightarrow> 1 | Some n \<Rightarrow> n) <
                           - ((- int (length (filter (matches f) store))) div
                              (case q_limit q of None \<Rightarrow> 10 | Some n \<Rightarrow> n))),
            hasPrevPage = ((case q_page q of None \<Rightarrow> 1 | Some n \<Rightarrow> n) > 1),
            limit = (case q_limit q of None \<Rightarrow> 10 | Some n \<Rightarrow> n)\<rparr>\<rparr>"
  using assms by (simp add: getPosts_def Let_def)

lemma getPosts_big:
  assumes "build_query regex requester q = Inr f"
    and "max_safe_integer < (case q_page q of None \<Rightarrow> 1 | Some n \<Rightarrow> n)"
  shows "getPosts regex big_page requester q store =
    (case big_page (case q_page q of None \<Rightarrow> 1 | Some n \<Rightarrow> n)
                   (case q_limit q of None \<Rightarrow> 10 | Some n \<Rightarrow> n)
                   (int (length (filter (matches f) store))) of
       Inl e \<Rightarrow> Inl e
     | Inr pgn \<Rightarrow> Inr \<lparr>posts = [], pagination = pgn\<rparr>)"
  using assms by (simp add: getPosts_def Let_def)



section \<open>Visibility of drafts\<close>

lemma getPost_query_admin:
  "role u = ''admin'' \<Longrightarrow> getPost_query (Some u) ident = identifier_query ident"
  by (simp add: getPost_query_def not_admin_def fun_eq_iff)

lemma getPosts_route_Inr:
  assumes "getPosts_route regex big_page requester q store = Inr pg"
  obtains f where "build_query regex requester q = Inr f"
    and "getPosts regex big_page requester q store = Inr pg"
proof (cases "build_query regex requester q")
  case (Inl msg)
  with assms show ?thesis
    by (simp add: getPosts_route_def getPosts_def Let_def split: if_splits)
next
  case (Inr f)
  moreover from assms have "getPosts regex big_page requester q store = Inr pg"
    by (simp add: getPosts_route_def split: if_splits)
  ultimately show ?thesis
    by (rule that)
qed

lemma getPosts_posts:
  assumes "build_query regex requester q = Inr f"
    and "getPosts regex big_page requester q store = Inr pg"
  shows "set (posts pg) \<subseteq> {x \<in> set store. matches f x}"
proof (cases "max_safe_integer < (case q_page q of None \<Rightarrow> 1 | Some n \<Rightarrow> n)")
  case True
  from assms(2) have "posts pg = []"
    unfolding getPosts_big [OF assms(1) True] by (auto split: sum.splits)
  then show ?thesis by simp
next
  case False
  then have sm: "(case q_page q of None \<Rightarrow> 1 | Some n \<Rightarrow> n) \<le> max_safe_integer"
    by simp
  from assms(2) obtain n m le where
    "posts pg = take n (drop m (sort_by le (filter (matches f) store)))"
    unfolding getPosts_result [OF assms(1) sm] by auto
  then show ?thesis
    using page_subset [of n m le "matches f" store] by simp
qed

text \<open>
  C1, as the code has it. For a requester who is absent or not an admin (the author of
  the post included): a view returns published posts only, and answers 404 when the
  identifier (an id, or a slug in any case and with any blanks around it) designates no
  published post; a listing without a status filter holds published posts only. For an
  admin: a view returns the post the identifier designates whatever its status, and a
  listing without a status filter holds, on a first page that is long enough for all the
  matches (10 when no limit is asked for), every post that matches the other filters,
  drafts included: the query it builds has no condition on the status.
\<close>

theorem C1_draft_visibility:
  "(not_admin requester \<and> fst (getPost now requester ident store) = Inr p' \<longrightarrow>
      status p' = Published) \<and>
   (not_admin requester \<and>
    (\<forall>d \<in> set store. identifier_query ident d \<longrightarrow> status d \<noteq> Published) \<longrightarrow>
      getPost now requester ident store = (Inl (Err 404 ''Post not found''), store)) \<and>
   (role u = ''admin'' \<and> find (identifier_query ident) store = Some p \<and> validate_doc p \<longrightarrow>
      fst (getPost now (Some u) ident store) = Inr (p\<lparr>views := views p + 1, updatedAt := now\<rparr>)) \<and>
   (not_admin requester \<and> q_status q = None \<longrightarrow>
      (case getPosts_route regex big_page requester q store of
         Inl e \<Rightarrow> True
       | Inr pg \<Rightarrow> \<forall>d \<in> set (posts pg). status d = Published)) \<and>
   (role u = ''admin'' \<and> q_status q = None \<and> getPostsValidation q \<and>
    build_query regex (Some u) q = Inr f \<and>
    (case q_page q of None \<Rightarrow> 1 | Some n \<Rightarrow> n) = 1 \<and>
    int (length (filter (matches f) store)) \<le> (case q_limit q of None \<Rightarrow> 10 | Some n \<Rightarrow> n) \<and>
    p \<in> set store \<and> matches f p \<longrightarrow>
      f_status f = None \<and>
      (case getPosts_route regex big_page (Some u) q store of
         Inl e \<Rightarrow> False
       | Inr pg \<Rightarrow> p \<in> set (posts pg)))"
proof (intro conjI impI)
  assume a: "not_admin requester \<and> fst (getPost now requester ident store) = Inr p'"
  show "status p' = Published"
  proof (cases "find (getPost_query requester ident) store")
    case None
    with a show ?thesis
      by (simp add: getPost_missing)
  next
    case (Some d)
    from find_sat [OF Some] a have st: "status d = Published"
      by (simp add: getPost_query_def)
    show ?thesis
    proof (cases "validate_doc d")
      case True
      with a st show ?thesis
        by (auto simp: getPost_found [OF Some])
    next
      case False
      with a show ?thesis
        by (simp add: getPost_invalid [OF Some])
    qed
  qed
next
  assume a: "not_admin requester \<and>
    (\<forall>d \<in> set store. identifier_query ident d \<longrightarrow> status d \<noteq> Published)"
  then have "find (getPost_query requester ident) store = None"
    by (auto simp: find_None_iff getPost_query_def)
  then show "getPost now requester ident store = (Inl (Err 404 ''Post not found''), store)"
    by (rule getPost_missing)
next
  assume a: "role u = ''admin'' \<and> find (identifier_query ident) store = Some p \<and> validate_doc p"
  then have "find (getPost_query (Some u) ident) store = Some p"
    by (simp add: getPost_query_admin)
  with a show "fst (getPost now (Some u) ident store) =
      Inr (p\<lparr>views := views p + 1, updatedAt := now\<rparr>)"
    by (simp add: getPost_found)
next
  assume a: "not_admin requester \<and> q_status q = None"
  show "case getPosts_route regex big_page requester q store of
         Inl e \<Rightarrow> True
       | Inr pg \<Rightarrow> \<forall>d \<in> set (posts pg). status d = Published"
  proof (cases "getPosts_route regex big_page requester q store")
    case (Inl e)
    then show ?thesis by simp
  next
    case (Inr pg)
    then obtain f where bq: "build_query regex requester q = Inr f"
        and g: "getPosts regex big_page requester q store = Inr pg"
      by (rule getPosts_route_Inr)
    have st: "f_status f = Some Published"
      using build_query_status [OF bq] a by simp
    have "set (posts pg) \<subseteq> {x \<in> set store. matches f x}"
      using bq g by (rule getPosts_posts)
    then have "\<forall>d \<in> set (posts pg). status d = Published"
      using st by (auto simp: matches_def)
    with Inr show ?thesis by simp
  qed
next
  assume a: "role u = ''admin'' \<and> q_status q = None \<and> getPostsValidation q \<and>
    build_query regex (Some u) q = Inr f \<and>
    (case q_page q of None \<Rightarrow> 1 | Some n \<Rightarrow> n) = 1 \<and>
    int (length (filter (matches f) store)) \<le> (case q_limit q of None \<Rightarrow> 10 | Some n \<Rightarrow> n) \<and>
    p \<in> set store \<and> matches f p"
  then have bq: "build_query regex (Some u) q = Inr f"
    and pg1: "(case q_page q of None \<Rightarrow> 1 | Some n \<Rightarrow> n) = 1"
    and v: "getPostsValidation q"
    by simp_all
  from build_query_status [OF bq] a show "f_status f = None"
    by (simp add: not_admin_def)
next
  assume a: "role u = ''admin'' \<and> q_status q = None \<and> getPostsValidation q \<and>
    build_query regex (Some u) q = Inr f \<and>
    (case q_page q of None \<Rightarrow> 1 | Some n \<Rightarrow> n) = 1 \<and>
    int (length (filter (matches f) store)) \<le> (case q_limit q of None \<Rightarrow> 10 | Some n \<Rightarrow> n) \<and>
    p \<in> set store \<and> matches f p"
  define lim where "lim = (case q_limit q of None \<Rightarrow> 10 | Some n \<Rightarrow> n)"
  from a have bq: "build_query regex (Some u) q = Inr f"
    and pg1: "(case q_page q of None \<Rightarrow> 1 | Some n \<Rightarrow> n) = 1"
    and v: "getPostsValidation q"
    and len: "int (length (filter (matches f) store)) \<le> lim"
    and mem: "p \<in> set (filter (matches f) store)"
    by (simp_all add: lim_def)
  have sm: "(case q_page q of None \<Rightarrow> 1 | Some n \<Rightarrow> n) \<le> max_safe_integer"
    by (simp add: pg1 max_safe_integer_def)
  have "length (sort_by le (filter (matches f) store)) \<le> nat lim"
    for le :: "post \<Rightarrow> post \<Rightarrow> bool"
    using len by (simp add: sort_by_length le_nat_iff)
  then have "take (nat lim) (sort_by le (filter (matches f) store)) =
      sort_by le (filter (matches f) store)" for le :: "post \<Rightarrow> post \<Rightarrow> bool"
    by simp
  with mem have "p \<in> set (take (nat lim) (sort_by le (filter (matches f) store)))"
    for le :: "post \<Rightarrow> post \<Rightarrow> bool"
    by (simp add: sort_by_set)
  then show "case getPosts_route regex big_page (Some u) q store of
         Inl e \<Rightarrow> False
       | Inr pg \<Rightarrow> p \<in> set (posts pg)"
    using v pg1 by (simp add: getPosts_route_def getPosts_result [OF bq sm] lim_def)
qed

text \<open>
  The draft of the first author: hidden from its author, by id and by slug; returned to
  the admin, by id and by a slug written in capitals; the author's listing holds the
  published post only, the admin's, with the default limit, holds the draft.
\<close>

theorem C1_draft_visibility_witness:
  "not_admin None \<and> not_admin (Some alice) \<and> role carol = ''admin'' \<and>
   author draft_post = user_id alice \<and> status draft_post = Draft \<and>
   fst (getPost 9 None ''Hello-World'' [draft_post, live_post]) =
     Inr (live_post\<lparr>views := 4, updatedAt := 9\<rparr>) \<and>
   status (live_post\<lparr>views := 4, updatedAt := 9\<rparr>) = Published \<and>
   getPost 9 (Some alice) ''64b7f0a1c2d3e4f5a6b7c9a1'' [draft_post, live_post] =
     (Inl (Err 404 ''Post not found''), [draft_post, live_post]) \<and>
   getPost 9 (Some alice) ''my-first-draft'' [draft_post, live_post] =
     (Inl (Err 404 ''Post not found''), [draft_post, live_post]) \<and>
   fst (getPost 9 (Some carol) ''64b7f0a1c2d3e4f5a6b7c9a1'' [draft_post, live_post]) =
     Inr (draft_post\<lparr>views := 1, updatedAt := 9\<rparr>) \<and>
   fst (getPost 9 (Some carol) ''My-First-Draft'' [draft_post, live_post]) =
     Inr (draft_post\<lparr>views := 1, updatedAt := 9\<rparr>) \<and>
   (case getPosts_route no_regex refuse_big (Some alice) no_filters [draft_post, live_post] of
      Inl e \<Rightarrow> False
    | Inr pg \<Rightarrow> posts pg = [live_post] \<and> list_all (\<lambda>d. status d = Published) (posts pg)) \<and>
   (case getPosts_route no_regex refuse_big (Some carol) no_filters [draft_post, live_post] of
      Inl e \<Rightarrow> False
    | Inr pg \<Rightarrow> draft_post \<in> set (posts pg))"
proof -
  define store where "store = [draft_post, live_post]"
  define f where "f = \<lparr>f_status = None, f_category = None, f_author = None,
    f_search = (None :: (string \<Rightarrow> bool) option)\<rparr>"
  have n: "not_admin None" "not_admin (Some alice)" "role carol = ''admin''"
    by (simp_all add: not_admin_def alice_def carol_def)
  have d: "author draft_post = user_id alice" "status draft_post = Draft"
    by (simp_all add: draft_post_def alice_def)
  have h1: "fst (getPost 9 None ''Hello-World'' store) = Inr (live_post\<lparr>views := 4, updatedAt := 9\<rparr>)"
    unfolding store_def by code_simp
  have h2: "\<forall>d \<in> set store. identifier_query ''64b7f0a1c2d3e4f5a6b7c9a1'' d \<longrightarrow> status d \<noteq> Published"
      "\<forall>d \<in> set store. identifier_query ''my-first-draft'' d \<longrightarrow> status d \<noteq> Published"
    unfolding store_def by code_simp+
  have h3: "find (identifier_query ''64b7f0a1c2d3e4f5a6b7c9a1'') store = Some draft_post"
      "find (identifier_query ''My-First-Draft'') store = Some draft_post"
      "validate_doc draft_post"
    unfolding store_def by code_simp+
  have h4: "q_status no_filters = None" "q_page no_filters = None" "q_limit no_filters = None"
      "getPostsValidation no_filters"
    by (simp_all add: no_filters_def getPostsValidation_def)
  have h5: "views draft_post + 1 = 1"
    by (simp add: draft_post_def)
  have h6: "build_query no_regex (Some carol) no_filters = Inr f"
    by (simp add: f_def no_filters_def build_query_plain not_admin_def carol_def)
  have h7: "matches f draft_post" "matches f live_post" "draft_post \<in> set store"
    by (simp_all add: f_def matches_def store_def)
  have h8: "int (length (filter (matches f) store)) \<le> 10"
    using h7 by (simp add: store_def)
  have e: "getPosts_route no_regex refuse_big (Some alice) no_filters store =
      Inr \<lparr>posts = [live_post],
           pagination = \<lparr>currentPage = 1, totalPages = 1, totalPosts = 1, hasNextPage = False,
                         hasPrevPage = False, limit = 10\<rparr>\<rparr>"
    unfolding store_def by code_simp
  note a = C1_draft_visibility
      [where requester = None and now = 9 and ident = "''Hello-World''" and store = store
         and p' = "live_post\<lparr>views := 4, updatedAt := 9\<rparr>" and u = carol and p = draft_post
         and q = no_filters and regex = no_regex and big_page = refuse_big and f = f]
  note b = C1_draft_visibility
      [where requester = "Some alice" and now = 9 and ident = "''64b7f0a1c2d3e4f5a6b7c9a1''" and store = store
         and p' = "live_post\<lparr>views := 4, updatedAt := 9\<rparr>" and u = carol and p = draft_post
         and q = no_filters and regex = no_regex and big_page = refuse_big and f = f]
  note c = C1_draft_visibility
      [where requester = "Some alice" and now = 9 and ident = "''my-first-draft''" and store = store
         and p' = "live_post\<lparr>views := 4, updatedAt := 9\<rparr>" and u = carol and p = draft_post
         and q = no_filters and regex = no_regex and big_page = refuse_big and f = f]
  note c' = C1_draft_visibility
      [where requester = "Some alice" and now = 9 and ident = "''My-First-Draft''" and store = store
         and p' = "live_post\<lparr>views := 4, updatedAt := 9\<rparr>" and u = carol and p = draft_post
         and q = no_filters and regex = no_regex and big_page = refuse_big and f = f]
  from a n h1 have c1: "status (live_post\<lparr>views := 4, updatedAt := 9\<rparr>) = Published"
    by blast
  from b n h2 have c2: "getPost 9 (Some alice) ''64b7f0a1c2d3e4f5a6b7c9a1'' store =
      (Inl (Err 404 ''Post not found''), store)"
    by blast
  from c n h2 have c2': "getPost 9 (Some alice) ''my-first-draft'' store =
      (Inl (Err 404 ''Post not found''), store)"
    by blast
  from b n h3 h5 have c3: "fst (getPost 9 (Some carol) ''64b7f0a1c2d3e4f5a6b7c9a1'' store) =
      Inr (draft_post\<lparr>views := 1, updatedAt := 9\<rparr>)"
    by simp
  from c' n h3 h5 have c3': "fst (getPost 9 (Some carol) ''My-First-Draft'' store) =
      Inr (draft_post\<lparr>views := 1, updatedAt := 9\<rparr>)"
    by simp
  from b n h4 have "case getPosts_route no_regex refuse_big (Some alice) no_filters store of
      Inl e \<Rightarrow> True | Inr pg \<Rightarrow> \<forall>d \<in> set (posts pg). status d = Published"
    by blast
  with e have c4: "case getPosts_route no_regex refuse_big (Some alice) no_filters store of
      Inl e \<Rightarrow> False
    | Inr pg \<Rightarrow> posts pg = [live_post] \<and> list_all (\<lambda>d. status d = Published) (posts pg)"
    by (simp add: list_all_iff)
  from b n h4 h6 h7 h8 have c5: "case getPosts_route no_regex refuse_big (Some carol) no_filters store of
      Inl e \<Rightarrow> False | Inr pg \<Rightarrow> draft_post \<in> set (posts pg)"
    by simp
  from n d h1 c1 c2 c2' c3 c3' c4 c5 show ?thesis
    unfolding store_def by simp
qed

text \<open>
  C1 as stated fails twice on the draft of the first author: the view by its author, who
  is no admin, answers 404; and the listing asked with \<open>status=draft\<close> by an anonymous
  requester returns the draft.
\<close>

theorem C1_draft_visibility_counterexample:
  "author draft_post = user_id alice \<and> status draft_post = Draft \<and>
   getPost 9 (Some alice) ''64b7f0a1c2d3e4f5a6b7c9a1'' [draft_post, live_post] =
     (Inl (Err 404 ''Post not found''), [draft_post, live_post]) \<and>
   getPosts_route no_regex refuse_big None (no_filters\<lparr>q_status := Some Draft\<rparr>)
       [draft_post, live_post] =
     Inr \<lparr>posts = [draft_post],
          pagination = \<lparr>currentPage = 1, totalPages = 1, totalPosts = 1, hasNextPage = False,
                        hasPrevPage = False, limit = 10\<rparr>\<rparr>"
  by code_simp

end
